theory Spec2Isabelle
  imports Main "HOL-Library.Sublist" "HOL-Library.Multiset"
begin

section \<open>JavaScript values\<close>

text \<open>
  The handlers work on parsed JSON and on whatever a transformer or a registered
  handler passes around, so values are modelled as a JavaScript value tree. Numbers
  are the integers (fractions and NaN are not modelled), objects are association
  lists of their own properties, and \<open>Error name message\<close> is an Error object.
\<close>

datatype jsval =
    Undefined
  | Null
  | Bool bool
  | Num int
  | Str string
  | Arr "jsval list"
  | Obj "(string \<times> jsval) list"
  | Error string string

text \<open>A computation either returns or throws a JavaScript value.\<close>

datatype 'a result = Return 'a | Throw jsval

text \<open>Truthiness, as \<^verbatim>\<open>if (x)\<close>, \<^verbatim>\<open>!x\<close> and \<^verbatim>\<open>x && y\<close> test it.\<close>

fun truthy :: "jsval \<Rightarrow> bool" where
  "truthy Undefined = False"
| "truthy Null = False"
| "truthy (Bool b) = b"
| "truthy (Num n) = (n \<noteq> 0)"
| "truthy (Str s) = (s \<noteq> [])"
| "truthy (Arr xs) = True"
| "truthy (Obj kvs) = True"
| "truthy (Error n m) = True"

fun digits :: "nat \<Rightarrow> string" where
  "digits n =
     (if n < 10 then [''0123456789'' ! n]
      else digits (n div 10) @ [''0123456789'' ! (n mod 10)])"

definition string_of_int :: "int \<Rightarrow> string" where
  "string_of_int n = (if n < 0 then CHR ''-'' # digits (nat (- n)) else digits (nat n))"

text \<open>
  String conversion, as a template literal \<^verbatim>\<open>`${x}`\<close> performs it: arrays join their
  elements with commas (null and undefined elements print as nothing), a plain
  object prints as \<^verbatim>\<open>[object Object]\<close>, an Error as \<^verbatim>\<open>name: message\<close>.
\<close>

fun to_string :: "jsval \<Rightarrow> string" and join_elems :: "jsval list \<Rightarrow> string" where
  "to_string Undefined = ''undefined''"
| "to_string Null = ''null''"
| "to_string (Bool b) = (if b then ''true'' else ''false'')"
| "to_string (Num n) = string_of_int n"
| "to_string (Str s) = s"
| "to_string (Arr xs) = join_elems xs"
| "to_string (Obj kvs) = ''[object Object]''"
| "to_string (Error n m) = (if m = [] then n else if n = [] then m else n @ '': '' @ m)"
| "join_elems [] = []"
| "join_elems [x] = (if x = Undefined \<or> x = Null then [] else to_string x)"
| "join_elems (x # y # ys) =
     (if x = Undefined \<or> x = Null then [] else to_string x) @ '','' @ join_elems (y # ys)"

text \<open>
  Reading a property \<^verbatim>\<open>v.k\<close>. On undefined and null the read throws a TypeError;
  on an object it is the own property or undefined. The source only reads the keys
  Records, kinesis, data, schema, self, vendor, name and version, none of which is a
  built-in property of a boolean, number, string or array.
\<close>

fun get_prop :: "jsval \<Rightarrow> string \<Rightarrow> jsval result" where
  "get_prop Undefined k =
     Throw (Error ''TypeError'' (''Cannot read property '' @ k @ '' of undefined''))"
| "get_prop Null k =
     Throw (Error ''TypeError'' (''Cannot read property '' @ k @ '' of null''))"
| "get_prop (Obj kvs) k = Return (case map_of kvs k of None \<Rightarrow> Undefined | Some v \<Rightarrow> v)"
| "get_prop (Error n m) k =
     Return (if k = ''name'' then Str n else if k = ''message'' then Str m else Undefined)"
| "get_prop (Bool b) k = Return Undefined"
| "get_prop (Num n) k = Return Undefined"
| "get_prop (Str s) k = Return Undefined"
| "get_prop (Arr xs) k = Return Undefined"

text \<open>\<^verbatim>\<open>hay.indexOf(needle) !== -1\<close>: the needle occurs somewhere in the string.\<close>

primrec indexOf_found :: "string \<Rightarrow> string \<Rightarrow> bool" where
  "indexOf_found [] needle = (needle = [])"
| "indexOf_found (c # cs) needle = (prefix needle (c # cs) \<or> indexOf_found cs needle)"

text \<open>
  A value handed over where a function is expected: either not a function at all,
  or a function with its declared parameter count (\<^verbatim>\<open>f.length\<close>) and its behaviour.
\<close>

datatype 'f callable = NotFunction jsval | Function nat 'f

fun callable_truthy :: "'f callable \<Rightarrow> bool" where
  "callable_truthy (NotFunction v) = truthy v"
| "callable_truthy (Function a f) = True"

section \<open>External collaborators\<close>

text \<open>
  What a registered handler \<^verbatim>\<open>(event, complete) => { ... }\<close> is seen to do with its
  completion: call it before returning, call it in a later turn of the event loop,
  never call it, throw before calling it, or call it before returning and then
  throw. The argument is the error value (\<open>Undefined\<close> for \<^verbatim>\<open>complete()\<close>); the second
  argument of \<open>CompletesThenRaises\<close> is what the handler throws once its completion
  has returned. A handler that completes more than once, or that puts its
  completion off to a later turn and throws before it returns, has no constructor
  here; in the concurrent driver, what it completes in a later turn can still be
  given among the arrivals. A handler may keep state of its own, so what it does
  may differ from one call to the next: its behaviour is a function of the
  position in the batch of the record it is called for, and of the event.
\<close>

datatype behaviour =
    CompletesNow jsval
  | CompletesLater jsval
  | NeverCompletes
  | Raises jsval
  | CompletesThenRaises jsval jsval

type_synonym handler = "nat \<Rightarrow> jsval \<Rightarrow> behaviour"

type_synonym transformer = "jsval \<Rightarrow> jsval \<Rightarrow> jsval result"

text \<open>
  The JavaScript runtime and the ajv package are not part of the repository; they
  are parameters of the model. \<open>decode\<close> is
  \<^verbatim>\<open>JSON.parse(new Buffer(data, 'base64').toString())\<close>, \<open>stack\<close> is \<^verbatim>\<open>ex.stack\<close>,
  \<open>newAJV\<close> is \<^verbatim>\<open>new AJV()\<close>, \<open>addSchema\<close> is \<^verbatim>\<open>ajv.addSchema(schema, key)\<close>
  (it may throw, and returns the validator as it is afterwards), and \<open>validate\<close>
  is \<^verbatim>\<open>ajv.validate(key, data)\<close> together with the \<^verbatim>\<open>ajv.errorsText()\<close> read
  after a failure.
\<close>

datatype validation = Valid | Invalid string

record 'v env =
  decode :: "jsval \<Rightarrow> jsval result"
  stack :: "jsval \<Rightarrow> string"
  newAJV :: 'v
  addSchema :: "jsval \<Rightarrow> string \<Rightarrow> 'v \<Rightarrow> jsval option \<times> 'v"
  validate :: "string \<Rightarrow> jsval \<Rightarrow> 'v \<Rightarrow> validation"

section \<open>Constants and schema identities\<close>

definition MODULE :: string where
  "MODULE = ''lib/kinesisHandler.js''"

definition METHOD_PROCESS_EVENT :: string where
  "METHOD_PROCESS_EVENT = ''processEvent''"

definition METHOD_PROCESS_KINESIS_EVENT :: string where
  "METHOD_PROCESS_KINESIS_EVENT = ''processKinesisEvent''"

definition BAD_MSG :: string where
  "BAD_MSG = ''bad msg:''"

text \<open>\<^verbatim>\<open>`${schema.self.vendor}/${schema.self.name}/${schema.self.version}`\<close>\<close>

definition makeSchemaId :: "jsval \<Rightarrow> string result" where
  "makeSchemaId schema =
     (case get_prop schema ''self'' of
        Throw e \<Rightarrow> Throw e
      | Return self \<Rightarrow>
          (case get_prop self ''vendor'' of
             Throw e \<Rightarrow> Throw e
           | Return vendor \<Rightarrow>
               (case get_prop self ''name'' of
                  Throw e \<Rightarrow> Throw e
                | Return name \<Rightarrow>
                    (case get_prop self ''version'' of
                       Throw e \<Rightarrow> Throw e
                     | Return version \<Rightarrow>
                         Return (to_string vendor @ ''/'' @ to_string name @ ''/''
                                 @ to_string version)))))"

section \<open>The handler instance\<close>

text \<open>
  The fields \<^verbatim>\<open>this.eventSchemaId\<close>, \<^verbatim>\<open>this.module\<close>, \<^verbatim>\<open>this.transfomer\<close> (spelt as
  in the source), \<^verbatim>\<open>this.schemaMethodPairs\<close> and \<^verbatim>\<open>this.ajv\<close>. The module name is
  only ever used inside template literals, so it is kept as its string.
\<close>

record 'v handler_state =
  eventSchemaId :: string
  module :: string
  transfomer :: "transformer callable"
  schemaMethodPairs :: "string \<rightharpoonup> handler callable"
  ajv :: 'v

text \<open>
  The constructor. \<^verbatim>\<open>KinesisHandler\<close> and \<^verbatim>\<open>KinesisSynchronousHandler\<close> run the same
  statements (the second also sets \<^verbatim>\<open>this.it = null\<close>).
\<close>

definition KinesisHandler ::
  "'v env \<Rightarrow> jsval \<Rightarrow> jsval \<Rightarrow> transformer callable \<Rightarrow> 'v handler_state result" where
  "KinesisHandler env eventSchema moduleName transformer =
     (if \<not> truthy eventSchema then
        Throw (Error ''Error''
          ''A schema for the event data on the Kinesis stream must be provided to this handler.'')
      else if callable_truthy transformer
              \<and> (case transformer of NotFunction v \<Rightarrow> True | Function a f \<Rightarrow> a \<noteq> 2) then
        Throw (Error ''Error''
          ''Transformer must be a function of the form (payload, record) => { . . . return result}'')
      else
        (case makeSchemaId eventSchema of
           Throw e \<Rightarrow> Throw e
         | Return sid \<Rightarrow>
             (case addSchema env eventSchema sid (newAJV env) of
                (Some e, a) \<Rightarrow> Throw e
              | (None, a) \<Rightarrow>
                  Return \<lparr> eventSchemaId = sid,
                           module = (if truthy moduleName then to_string moduleName
                                     else ''unnamed module''),
                           transfomer = transformer,
                           schemaMethodPairs = Map.empty,
                           ajv = a \<rparr>)))"

definition KinesisSynchronousHandler ::
  "'v env \<Rightarrow> jsval \<Rightarrow> jsval \<Rightarrow> transformer callable \<Rightarrow> 'v handler_state result" where
  "KinesisSynchronousHandler = KinesisHandler"

text \<open>
  \<^verbatim>\<open>registerSchemaMethodPair\<close>, the same statements in both handlers. The result is the
  exception thrown, if any, and the instance as the call leaves it: an exception
  does not undo what was done before it.
\<close>

definition registerSchemaMethodPair ::
  "'v env \<Rightarrow> 'v handler_state \<Rightarrow> jsval \<Rightarrow> handler callable
     \<Rightarrow> jsval option \<times> 'v handler_state" where
  "registerSchemaMethodPair env h schema js_method =
     (case makeSchemaId schema of
        Throw e \<Rightarrow> (Some e, h)
      | Return schemaId \<Rightarrow>
          (case addSchema env schema schemaId (ajv h) of
             (Some e, a) \<Rightarrow> (Some e, h\<lparr>ajv := a\<rparr>)
           | (None, a) \<Rightarrow>
               (case js_method of
                  NotFunction v \<Rightarrow>
                    (Some (Error ''Error''
                       ''Method must be a function of the form (event, callback) => { . . . }''),
                     h\<lparr>ajv := a\<rparr>)
                | Function n f \<Rightarrow>
                    if n \<noteq> 2 then
                      (Some (Error ''Error''
                         ''Method must be a function of the form (event, callback) => { . . . }''),
                       h\<lparr>ajv := a\<rparr>)
                    else
                      (None, h\<lparr>ajv := a,
                               schemaMethodPairs := (schemaMethodPairs h)(schemaId \<mapsto> js_method)\<rparr>))))"

text \<open>
  The registration of \<^verbatim>\<open>src/lib/kinesis-handler.js\<close>, the earlier single-handler file:
  its comment says the method must be of the form \<^verbatim>\<open>(event, complete) => {}\<close> and
  adds \<^verbatim>\<open>TODO enforce this\<close>; nothing is checked.
\<close>

definition lib_registerSchemaMethodPair ::
  "'v env \<Rightarrow> 'v handler_state \<Rightarrow> jsval \<Rightarrow> handler callable
     \<Rightarrow> jsval option \<times> 'v handler_state" where
  "lib_registerSchemaMethodPair env h schema js_method =
     (case makeSchemaId schema of
        Throw e \<Rightarrow> (Some e, h)
      | Return schemaId \<Rightarrow>
          (case addSchema env schema schemaId (ajv h) of
             (Some e, a) \<Rightarrow> (Some e, h\<lparr>ajv := a\<rparr>)
           | (None, a) \<Rightarrow>
               (None, h\<lparr>ajv := a,
                        schemaMethodPairs := (schemaMethodPairs h)(schemaId \<mapsto> js_method)\<rparr>)))"

section \<open>Dispatch\<close>

text \<open>
  A bad-message string: \<^verbatim>\<open>`${constants.METHOD_PROCESS_EVENT} ${constants.BAD_MSG}...`\<close>.
\<close>

definition bad_msg :: "string \<Rightarrow> jsval" where
  "bad_msg rest = Str (METHOD_PROCESS_EVENT @ '' '' @ BAD_MSG @ rest)"

text \<open>
  \<^verbatim>\<open>Object.keys(this.schemaMethodPairs).indexOf(x) > -1\<close>: the value is a string that is
  a key of the pairs.
\<close>

fun registered :: "'v handler_state \<Rightarrow> jsval \<Rightarrow> bool" where
  "registered h (Str k) = (schemaMethodPairs h k \<noteq> None)"
| "registered h v = False"

text \<open>
  \<^verbatim>\<open>KinesisHandler.processEvent(event, complete)\<close> makes exactly one call, in tail
  position, or throws: \<open>Complete v\<close> is \<^verbatim>\<open>complete(v)\<close> (\<open>Undefined\<close> for
  \<^verbatim>\<open>complete()\<close>), \<open>Invoke k event\<close> is \<^verbatim>\<open>this.schemaMethodPairs[k](event, complete)\<close>,
  \<open>Raise e\<close> is an exception thrown by the function itself.
\<close>

datatype action = Complete jsval | Invoke string jsval | Raise jsval

definition processEvent :: "'v env \<Rightarrow> 'v handler_state \<Rightarrow> jsval \<Rightarrow> action" where
  "processEvent env h event =
     (if \<not> truthy event then Complete (bad_msg '' event did not specify a schema.'')
      else
        (case get_prop event ''schema'' of
           Throw e \<Rightarrow> Raise e
         | Return s \<Rightarrow>
             if \<not> truthy s then Complete (bad_msg '' event did not specify a schema.'')
             else if s \<noteq> Str (eventSchemaId h) then
               Complete (bad_msg ('' event did not have proper schema.  Observed: ''
                 @ [CHR 0x27] @ to_string s @ [CHR 0x27] @ '' expected: ''
                 @ [CHR 0x27] @ eventSchemaId h @ [CHR 0x27]))
             else
               (case validate env (eventSchemaId h) event (ajv h) of
                  Invalid errs \<Rightarrow>
                    Complete (bad_msg ('' could not validate event to '' @ [CHR 0x27]
                      @ eventSchemaId h @ [CHR 0x27] @ '' schema.  Errors: '' @ errs))
                | Valid \<Rightarrow>
                    (case get_prop event ''data'' of
                       Throw e \<Rightarrow> Raise e
                     | Return d \<Rightarrow>
                         (case get_prop d ''schema'' of
                            Throw e \<Rightarrow> Raise e
                          | Return ds \<Rightarrow>
                              if registered h ds then
                                (case validate env (to_string ds) d (ajv h) of
                                   Invalid errs \<Rightarrow>
                                     Complete (bad_msg ('' could not validate event to ''
                                       @ [CHR 0x27] @ to_string ds @ [CHR 0x27]
                                       @ '' schema. Errors: '' @ errs))
                                 | Valid \<Rightarrow> Invoke (to_string ds) event)
                              else Complete Undefined)))))"

text \<open>
  \<^verbatim>\<open>KinesisSynchronousHandler.processEvent(event)\<close>: the same decisions; a rejection or
  an unsupported schema is deferred as \<^verbatim>\<open>setTimeout(() => that.it.next(v), 0)\<close>
  (\<open>Next v\<close>), a routed event calls the handler with the driver's own completion
  closure (\<open>Call k event\<close>).
\<close>

datatype sync_action = Next jsval | Call string jsval | Fail jsval

definition processEvent_sync :: "'v env \<Rightarrow> 'v handler_state \<Rightarrow> jsval \<Rightarrow> sync_action" where
  "processEvent_sync env h event =
     (if \<not> truthy event then Next (bad_msg '' event did not specify a schema.'')
      else
        (case get_prop event ''schema'' of
           Throw e \<Rightarrow> Fail e
         | Return s \<Rightarrow>
             if \<not> truthy s then Next (bad_msg '' event did not specify a schema.'')
             else if s \<noteq> Str (eventSchemaId h) then
               Next (bad_msg ('' event did not have proper schema.  Observed: ''
                 @ [CHR 0x27] @ to_string s @ [CHR 0x27] @ '' expected: ''
                 @ [CHR 0x27] @ eventSchemaId h @ [CHR 0x27]))
             else
               (case validate env (eventSchemaId h) event (ajv h) of
                  Invalid errs \<Rightarrow>
                    Next (bad_msg ('' could not validate event to '' @ [CHR 0x27]
                      @ eventSchemaId h @ [CHR 0x27] @ '' schema.  Errors: '' @ errs))
                | Valid \<Rightarrow>
                    (case get_prop event ''data'' of
                       Throw e \<Rightarrow> Fail e
                     | Return d \<Rightarrow>
                         (case get_prop d ''schema'' of
                            Throw e \<Rightarrow> Fail e
                          | Return ds \<Rightarrow>
                              if registered h ds then
                                (case validate env (to_string ds) d (ajv h) of
                                   Invalid errs \<Rightarrow>
                                     Next (bad_msg ('' could not validate event to ''
                                       @ [CHR 0x27] @ to_string ds @ [CHR 0x27]
                                       @ '' schema. Errors: '' @ errs))
                                 | Valid \<Rightarrow> Call (to_string ds) event)
                              else Next Undefined)))))"

text \<open>
  The envelope decoder shared by both record loops:
  \<^verbatim>\<open>if (this.transfomer) { parsed = this.transfomer(parsed, record) }\<close>.
\<close>

definition transform :: "'v handler_state \<Rightarrow> jsval \<Rightarrow> jsval \<Rightarrow> jsval result" where
  "transform h parsed record =
     (case transfomer h of
        NotFunction v \<Rightarrow>
          if truthy v then Throw (Error ''TypeError'' ''this.transfomer is not a function'')
          else Return parsed
      | Function a f \<Rightarrow> f parsed record)"

section \<open>What a run is seen to do\<close>

text \<open>
  The trace of a run: the calls of the caller's callback (\<open>Undefined\<close> for
  \<^verbatim>\<open>callback()\<close>), the handlers invoked and the completions received, each with the
  position of its record in the batch (from 0), the records whose payload the
  ordered driver started to decode, the exceptions no \<^verbatim>\<open>try\<close> of the source catches,
  and the final \<^verbatim>\<open>console.log('Messages with invalid data: ', badMessages)\<close>.
\<close>

datatype obs =
    Callback jsval
  | Invoked nat string jsval
  | Completed nat jsval
  | Decoding nat
  | Uncaught jsval
  | Report "jsval list"

record world =
  trace :: "obs list"

definition emit :: "obs \<Rightarrow> ('a world_scheme) \<Rightarrow> ('a world_scheme)" where
  "emit ob st = st\<lparr>trace := trace st @ [ob]\<rparr>"

fun callbacks :: "obs list \<Rightarrow> jsval list" where
  "callbacks [] = []"
| "callbacks (Callback v # tr) = v # callbacks tr"
| "callbacks (ob # tr) = callbacks tr"

fun completions :: "obs list \<Rightarrow> (nat \<times> jsval) list" where
  "completions [] = []"
| "completions (Completed i v # tr) = (i, v) # completions tr"
| "completions (ob # tr) = completions tr"

fun invocations :: "obs list \<Rightarrow> nat list" where
  "invocations [] = []"
| "invocations (Invoked i k ev # tr) = i # invocations tr"
| "invocations (ob # tr) = invocations tr"

fun decodings :: "obs list \<Rightarrow> nat list" where
  "decodings [] = []"
| "decodings (Decoding i # tr) = i # decodings tr"
| "decodings (ob # tr) = decodings tr"

section \<open>The concurrent driver\<close>

text \<open>
  The state of one \<^verbatim>\<open>KinesisHandler.processKinesisEvent\<close> call: the counter
  \<^verbatim>\<open>successes\<close>, and the completions that handlers have put off to a later turn
  (record position and error value), not yet delivered.
\<close>

record cstate = world +
  successes :: nat
  pending :: "(nat \<times> jsval) list"

text \<open>
  The prefix \<^verbatim>\<open>`${constants.MODULE} for ${this.module} `\<close> of the driver's messages.
\<close>

definition msg_prefix :: "'v handler_state \<Rightarrow> string" where
  "msg_prefix h = MODULE @ '' for '' @ module h @ '' ''"

text \<open>
  The test of the closure \<^verbatim>\<open>complete\<close> on a truthy error: the error is fatal unless
  the prefixed message contains the prefixed bad-message marker.
\<close>

definition fatal :: "'v handler_state \<Rightarrow> jsval \<Rightarrow> bool" where
  "fatal h err =
     (truthy err \<and>
      \<not> indexOf_found (msg_prefix h @ to_string err)
           (msg_prefix h @ METHOD_PROCESS_EVENT @ '' '' @ BAD_MSG))"

text \<open>
  The closure \<^verbatim>\<open>complete\<close> of \<^verbatim>\<open>processKinesisEvent\<close>, called for the record at
  position \<open>i\<close> of a batch of \<open>n\<close> records (\<^verbatim>\<open>kinesisEvent.Records.length\<close>). It
  returns the Error it throws, if any. The caller's callback is taken to return
  normally.
\<close>

definition complete ::
  "'v handler_state \<Rightarrow> nat \<Rightarrow> nat \<Rightarrow> jsval \<Rightarrow> cstate \<Rightarrow> jsval option \<times> cstate" where
  "complete h n i err st =
     (let st1 = emit (Completed i err) st in
      if truthy err
         \<and> \<not> indexOf_found (msg_prefix h @ to_string err)
               (msg_prefix h @ METHOD_PROCESS_EVENT @ '' '' @ BAD_MSG)
      then (Some (Error ''Error'' (msg_prefix h @ to_string err)), st1)
      else
        (let st2 = st1\<lparr>successes := successes st1 + 1\<rparr> in
         if successes st2 = n then (None, emit (Callback Undefined) st2)
         else (None, st2)))"

text \<open>
  \<^verbatim>\<open>this.schemaMethodPairs[k](event, complete)\<close> in the concurrent driver. An Error
  thrown by \<^verbatim>\<open>complete\<close> while the handler is running leaves the handler at once; if
  \<^verbatim>\<open>complete\<close> returns, a handler that throws afterwards does so with the counter
  already moved.
\<close>

definition invoke ::
  "'v handler_state \<Rightarrow> nat \<Rightarrow> nat \<Rightarrow> string \<Rightarrow> jsval \<Rightarrow> cstate \<Rightarrow> jsval option \<times> cstate" where
  "invoke h n i k event st =
     (case schemaMethodPairs h k of
        None \<Rightarrow>
          (Some (Error ''TypeError'' ''this.schemaMethodPairs[event.data.schema] is not a function''), st)
      | Some (NotFunction v) \<Rightarrow>
          (Some (Error ''TypeError'' ''this.schemaMethodPairs[event.data.schema] is not a function''), st)
      | Some (Function a f) \<Rightarrow>
          (let st1 = emit (Invoked i k event) st in
           case f i event of
             CompletesNow err \<Rightarrow> complete h n i err st1
           | CompletesLater err \<Rightarrow> (None, st1\<lparr>pending := pending st1 @ [(i, err)]\<rparr>)
           | NeverCompletes \<Rightarrow> (None, st1)
           | Raises ex \<Rightarrow> (Some ex, st1)
           | CompletesThenRaises err ex \<Rightarrow>
               (case complete h n i err st1 of
                  (Some e, st2) \<Rightarrow> (Some e, st2)
                | (None, st2) \<Rightarrow> (Some ex, st2))))"

text \<open>
  The call \<^verbatim>\<open>this.processEvent(parsed, complete)\<close> of the concurrent driver, for the
  record at position \<open>i\<close>.
\<close>

definition dispatch ::
  "'v env \<Rightarrow> 'v handler_state \<Rightarrow> nat \<Rightarrow> nat \<Rightarrow> jsval \<Rightarrow> cstate \<Rightarrow> jsval option \<times> cstate" where
  "dispatch env h n i ev st =
     (case processEvent env h ev of
        Complete err \<Rightarrow> complete h n i err st
      | Invoke k ev' \<Rightarrow> invoke h n i k ev' st
      | Raise e \<Rightarrow> (Some e, st))"

text \<open>
  The body of the \<^verbatim>\<open>for\<close> loop of \<^verbatim>\<open>KinesisHandler.processKinesisEvent\<close> for the
  record at position \<open>i\<close>.
\<close>

definition record_body ::
  "'v env \<Rightarrow> 'v handler_state \<Rightarrow> nat \<Rightarrow> nat \<Rightarrow> jsval \<Rightarrow> cstate \<Rightarrow> jsval option \<times> cstate" where
  "record_body env h n i record st =
     (case get_prop record ''kinesis'' of
        Throw e \<Rightarrow> (Some e, st)
      | Return kin \<Rightarrow>
          if \<not> truthy kin then complete h n i (bad_msg '' record missing Kinesis data.'') st
          else
            (case get_prop kin ''data'' of
               Throw e \<Rightarrow> (Some e, st)
             | Return d \<Rightarrow>
                 if \<not> truthy d then
                   complete h n i (bad_msg '' record missing Kinesis data.'') st
                 else
                   (case decode env d of
                      Throw ex \<Rightarrow>
                        complete h n i
                          (bad_msg ('' failed to decode and parse the data - '' @ [CHR 0x22]
                             @ stack env ex @ [CHR 0x22] @ ''.'')) st
                    | Return parsed \<Rightarrow>
                        if truthy parsed then
                          (case transform h parsed record of
                             Throw e \<Rightarrow> (Some e, st)
                           | Return ev \<Rightarrow> dispatch env h n i ev st)
                        else (None, st))))"

fun records_loop ::
  "'v env \<Rightarrow> 'v handler_state \<Rightarrow> nat \<Rightarrow> nat \<Rightarrow> jsval list \<Rightarrow> cstate \<Rightarrow> jsval option \<times> cstate" where
  "records_loop env h n i [] st = (None, st)"
| "records_loop env h n i (record # rest) st =
     (case record_body env h n i record st of
        (Some e, st') \<Rightarrow> (Some e, st')
      | (None, st') \<Rightarrow> records_loop env h n (Suc i) rest st')"

definition no_records :: "'v handler_state \<Rightarrow> jsval" where
  "no_records h =
     Str (msg_prefix h @ METHOD_PROCESS_KINESIS_EVENT @ '' - no records received.'')"

text \<open>
  \<^verbatim>\<open>KinesisHandler.processKinesisEvent(kinesisEvent, context, callback)\<close>: the state when
  the call returns. The Lambda context is never read.
\<close>

definition processKinesisEvent :: "'v env \<Rightarrow> 'v handler_state \<Rightarrow> jsval \<Rightarrow> cstate" where
  "processKinesisEvent env h kinesisEvent =
     (let st0 = \<lparr> trace = [], successes = 0, pending = [] \<rparr> in
      if \<not> truthy kinesisEvent then emit (Callback (no_records h)) st0
      else
        (case get_prop kinesisEvent ''Records'' of
           Throw e \<Rightarrow> emit (Callback e) st0
         | Return (Arr records) \<Rightarrow>
             (case records_loop env h (length records) 0 records st0 of
                (Some ex, st) \<Rightarrow> emit (Callback ex) st
              | (None, st) \<Rightarrow> st)
         | Return other \<Rightarrow> emit (Callback (no_records h)) st0))"

text \<open>
  The later turns of the event loop: the completions that arrive, in the order of
  their arrival. An Error thrown by \<^verbatim>\<open>complete\<close> in such a turn has no \<^verbatim>\<open>try\<close>
  around it. The completions that the handlers have put off, as far as \<open>behaviour\<close>
  describes them, are in \<open>pending\<close>. An arrival that is not among them is the
  completion of a handler that \<open>behaviour\<close> does not describe: one that had put
  its completion off before it threw, or one that completes a second time.
\<close>

fun deliver :: "'v handler_state \<Rightarrow> nat \<Rightarrow> (nat \<times> jsval) list \<Rightarrow> cstate \<Rightarrow> cstate" where
  "deliver h n [] st = st"
| "deliver h n ((i, err) # rest) st =
     (case complete h n i err (st\<lparr>pending := remove1 (i, err) (pending st)\<rparr>) of
        (Some ex, st') \<Rightarrow> deliver h n rest (emit (Uncaught ex) st')
      | (None, st') \<Rightarrow> deliver h n rest st')"

definition batch_size :: "jsval \<Rightarrow> nat" where
  "batch_size kinesisEvent =
     (case get_prop kinesisEvent ''Records'' of
        Return (Arr records) \<Rightarrow> length records
      | other \<Rightarrow> 0)"

text \<open>A whole run of the concurrent driver: the call, then the arrivals.\<close>

definition run_concurrent ::
  "'v env \<Rightarrow> 'v handler_state \<Rightarrow> jsval \<Rightarrow> (nat \<times> jsval) list \<Rightarrow> cstate" where
  "run_concurrent env h kinesisEvent arrivals =
     deliver h (batch_size kinesisEvent) arrivals (processKinesisEvent env h kinesisEvent)"

section \<open>The ordered driver\<close>

text \<open>
  The generator \<^verbatim>\<open>recordGenerator\<close> keeps the list \<^verbatim>\<open>badMessages\<close>. Its body runs in
  turns: the first one inside the \<^verbatim>\<open>try\<close> of \<^verbatim>\<open>processKinesisEvent\<close> (from
  \<^verbatim>\<open>this.it.next()\<close> to the first \<^verbatim>\<open>yield\<close>), every later one inside a timer or a
  handler's completion, where \<^verbatim>\<open>that.it.next(...)\<close> resumes it.
\<close>

record ostate = world +
  badMessages :: "jsval list"

datatype turn = Initial | Later

text \<open>
  An exception leaving the generator: in the first turn the \<^verbatim>\<open>catch\<close> of
  \<^verbatim>\<open>processKinesisEvent\<close> passes it to the callback, in a later turn nothing
  catches it.
\<close>

fun raise :: "turn \<Rightarrow> jsval \<Rightarrow> ostate \<Rightarrow> ostate" where
  "raise Initial ex st = emit (Callback ex) st"
| "raise Later ex st = emit (Uncaught ex) st"

definition push :: "jsval \<Rightarrow> ostate \<Rightarrow> ostate" where
  "push v st = st\<lparr>badMessages := badMessages st @ [v]\<rparr>"

text \<open>
  How one iteration of the generator's loop ends: the loop goes on to the next
  record, in the given turn, or the generator never goes on (it was closed by an
  exception, or it stays suspended at the \<^verbatim>\<open>yield\<close> for ever).
\<close>

datatype progress = Continue turn ostate | Halt ostate

text \<open>
  The handler call of \<^verbatim>\<open>KinesisSynchronousHandler.processEvent\<close> with its completion
  closure \<^verbatim>\<open>(err) => { if (err) { throw new Error(...) } else { that.it.next() } }\<close>.
  Called before the handler returns, the closure finds the generator running:
  a truthy error is thrown through the generator, and \<^verbatim>\<open>that.it.next()\<close> throws the
  TypeError of a generator that is already running; either way the closure does
  not return to the handler, so what the handler would have done next is never
  reached. Called in a later turn, a truthy error is thrown with nothing to catch
  it, and \<^verbatim>\<open>that.it.next()\<close> resumes the generator.
\<close>

definition invoke_sync ::
  "'v handler_state \<Rightarrow> turn \<Rightarrow> nat \<Rightarrow> string \<Rightarrow> jsval \<Rightarrow> ostate \<Rightarrow> progress" where
  "invoke_sync h t i k event st =
     (case schemaMethodPairs h k of
        None \<Rightarrow>
          Halt (raise t (Error ''TypeError''
            ''this.schemaMethodPairs[event.data.schema] is not a function'') st)
      | Some (NotFunction v) \<Rightarrow>
          Halt (raise t (Error ''TypeError''
            ''this.schemaMethodPairs[event.data.schema] is not a function'') st)
      | Some (Function a f) \<Rightarrow>
          (let st1 = emit (Invoked i k event) st in
           case f i event of
             CompletesNow err \<Rightarrow>
               if truthy err then
                 Halt (raise t (Error ''Error'' (msg_prefix h @ to_string err))
                         (emit (Completed i err) st1))
               else
                 Halt (raise t (Error ''TypeError'' ''Generator is already running'')
                         (emit (Completed i err) st1))
           | CompletesLater err \<Rightarrow>
               if truthy err then
                 Halt (raise Later (Error ''Error'' (msg_prefix h @ to_string err))
                         (emit (Completed i err) st1))
               else Continue Later (emit (Completed i err) st1)
           | NeverCompletes \<Rightarrow> Halt st1
           | Raises ex \<Rightarrow> Halt (raise t ex st1)
           | CompletesThenRaises err ex \<Rightarrow>
               if truthy err then
                 Halt (raise t (Error ''Error'' (msg_prefix h @ to_string err))
                         (emit (Completed i err) st1))
               else
                 Halt (raise t (Error ''TypeError'' ''Generator is already running'')
                         (emit (Completed i err) st1))))"

text \<open>
  \<^verbatim>\<open>const recordError = yield this.processEvent(parsed)\<close> and the
  \<^verbatim>\<open>if (recordError) { badMessages.push(recordError) }\<close> after it.
\<close>

definition dispatch_sync ::
  "'v env \<Rightarrow> 'v handler_state \<Rightarrow> turn \<Rightarrow> nat \<Rightarrow> jsval \<Rightarrow> ostate \<Rightarrow> progress" where
  "dispatch_sync env h t i ev st =
     (case processEvent_sync env h ev of
        Next v \<Rightarrow> Continue Later (if truthy v then push v st else st)
      | Call k ev' \<Rightarrow> invoke_sync h t i k ev' st
      | Fail e \<Rightarrow> Halt (raise t e st))"

text \<open>
  One iteration of the \<^verbatim>\<open>for\<close> loop of \<^verbatim>\<open>recordGenerator\<close>, for the record at
  position \<open>i\<close>, up to the point where the loop variable is incremented.
\<close>

definition record_turn ::
  "'v env \<Rightarrow> 'v handler_state \<Rightarrow> turn \<Rightarrow> nat \<Rightarrow> jsval \<Rightarrow> ostate \<Rightarrow> progress" where
  "record_turn env h t i record st =
     (case get_prop record ''kinesis'' of
        Throw e \<Rightarrow> Halt (raise t e st)
      | Return kin \<Rightarrow>
          if \<not> truthy kin then
            Continue t (push (bad_msg '' record missing Kinesis data.'') st)
          else
            (case get_prop kin ''data'' of
               Throw e \<Rightarrow> Halt (raise t e st)
             | Return d \<Rightarrow>
                 if \<not> truthy d then
                   Continue t (push (bad_msg '' record missing Kinesis data.'') st)
                 else
                   (let st1 = emit (Decoding i) st in
                    case decode env d of
                      Throw ex \<Rightarrow>
                        Continue t
                          (push (bad_msg ('' failed to decode and parse the data - ''
                             @ [CHR 0x22] @ stack env ex @ [CHR 0x22] @ ''.'')) st1)
                    | Return parsed \<Rightarrow>
                        if truthy parsed then
                          (case transform h parsed record of
                             Throw e \<Rightarrow> Halt (raise t e st1)
                           | Return ev \<Rightarrow> dispatch_sync env h t i ev st1)
                        else Continue t st1)))"

text \<open>
  The generator from position \<open>i\<close> on, over the records still to come. The code
  after a \<^verbatim>\<open>yield\<close> is the recursive call, run in the turn that resumes it. When the
  loop is over the list of bad messages is logged, and nothing else is done.
\<close>

fun recordGenerator ::
  "'v env \<Rightarrow> 'v handler_state \<Rightarrow> turn \<Rightarrow> nat \<Rightarrow> jsval list \<Rightarrow> ostate \<Rightarrow> ostate" where
  "recordGenerator env h t i [] st = emit (Report (badMessages st)) st"
| "recordGenerator env h t i (record # rest) st =
     (case record_turn env h t i record st of
        Continue t' st' \<Rightarrow> recordGenerator env h t' (Suc i) rest st'
      | Halt st' \<Rightarrow> st')"

text \<open>
  \<^verbatim>\<open>KinesisSynchronousHandler.processKinesisEvent(kinesisEvent, context, callback)\<close>,
  followed by the turns of the event loop it sets off, until nothing is left to
  run.
\<close>

definition processKinesisEvent_sync :: "'v env \<Rightarrow> 'v handler_state \<Rightarrow> jsval \<Rightarrow> ostate" where
  "processKinesisEvent_sync env h kinesisEvent =
     (let st0 = \<lparr> trace = [], badMessages = [] \<rparr> in
      if \<not> truthy kinesisEvent then emit (Callback (no_records h)) st0
      else
        (case get_prop kinesisEvent ''Records'' of
           Throw e \<Rightarrow> emit (Callback e) st0
         | Return (Arr records) \<Rightarrow> recordGenerator env h Initial 0 records st0
         | Return other \<Rightarrow> emit (Callback (no_records h)) st0))"

section \<open>Stand-ins for the runtime, used to run the model on examples\<close>

text \<open>
  A decoder that knows a few payloads: \<^verbatim>\<open>order\<close> and \<^verbatim>\<open>audit\<close> decode to events of the
  envelope \<^verbatim>\<open>com.shop/stream/1-0-0\<close> with payload schemas \<^verbatim>\<open>com.shop/order/1-0-0\<close>
  and \<^verbatim>\<open>com.shop/audit/1-0-0\<close>, \<^verbatim>\<open>bare\<close> to an event of that envelope without a
  \<^verbatim>\<open>data\<close> field, \<^verbatim>\<open>alien\<close> to an event of another envelope, \<^verbatim>\<open>null\<close> to the JSON
  value null; anything else fails to parse.
\<close>

definition order_event :: jsval where
  "order_event =
     Obj [(''schema'', Str ''com.shop/stream/1-0-0''),
          (''data'', Obj [(''schema'', Str ''com.shop/order/1-0-0''), (''id'', Num 7)])]"

definition audit_event :: jsval where
  "audit_event =
     Obj [(''schema'', Str ''com.shop/stream/1-0-0''),
          (''data'', Obj [(''schema'', Str ''com.shop/audit/1-0-0'')])]"

definition bare_event :: jsval where
  "bare_event = Obj [(''schema'', Str ''com.shop/stream/1-0-0'')]"

definition alien_event :: jsval where
  "alien_event = Obj [(''schema'', Str ''org.other/stream/1-0-0''), (''data'', Obj [])]"

definition demo_decode :: "jsval \<Rightarrow> jsval result" where
  "demo_decode d =
     (if d = Str ''order'' then Return order_event
      else if d = Str ''audit'' then Return audit_event
      else if d = Str ''bare'' then Return bare_event
      else if d = Str ''alien'' then Return alien_event
      else if d = Str ''null'' then Return Null
      else Throw (Error ''SyntaxError'' ''Unexpected token''))"

text \<open>
  A validator that keeps the keys added to it, refuses a key it already has, and
  accepts exactly the objects.
\<close>

definition demo_addSchema :: "jsval \<Rightarrow> string \<Rightarrow> string list \<Rightarrow> jsval option \<times> string list" where
  "demo_addSchema schema key keys =
     (if key \<in> set keys then (Some (Error ''Error'' ''schema already exists''), keys)
      else (None, key # keys))"

fun demo_validate :: "string \<Rightarrow> jsval \<Rightarrow> string list \<Rightarrow> validation" where
  "demo_validate key (Obj kvs) keys = Valid"
| "demo_validate key v keys = Invalid ''data should be object''"

definition demo_env :: "string list env" where
  "demo_env =
     \<lparr> decode = demo_decode,
       stack = to_string,
       newAJV = [],
       addSchema = demo_addSchema,
       validate = demo_validate \<rparr>"

definition schema_doc :: "string \<Rightarrow> jsval" where
  "schema_doc name =
     Obj [(''self'', Obj [(''vendor'', Str ''com.shop''), (''name'', Str name),
                          (''version'', Str ''1-0-0'')])]"

text \<open>A record of a batch carrying the given payload, and one carrying none.\<close>

definition rec_with :: "string \<Rightarrow> jsval" where
  "rec_with payload = Obj [(''kinesis'', Obj [(''data'', Str payload)])]"

definition rec_without :: jsval where
  "rec_without = Obj [(''kinesis'', Obj [(''partitionKey'', Str ''p'')])]"

definition batch :: "jsval list \<Rightarrow> jsval" where
  "batch records = Obj [(''Records'', Arr records)]"

text \<open>
  An instance named \<^verbatim>\<open>m\<close> for the envelope \<^verbatim>\<open>com.shop/stream/1-0-0\<close> with one
  handler registered for \<^verbatim>\<open>com.shop/order/1-0-0\<close>, as the constructor and the
  registration leave it.
\<close>

definition demo_handler :: "handler \<Rightarrow> string list handler_state" where
  "demo_handler f =
     \<lparr> eventSchemaId = ''com.shop/stream/1-0-0'',
       module = ''m'',
       transfomer = NotFunction Undefined,
       schemaMethodPairs = [''com.shop/order/1-0-0'' \<mapsto> Function 2 f],
       ajv = [''com.shop/order/1-0-0'', ''com.shop/stream/1-0-0''] \<rparr>"

text \<open>Handlers that complete in a later turn, without and with an error.\<close>

definition ok_later :: handler where
  "ok_later i ev = CompletesLater Undefined"

definition fails_later :: handler where
  "fails_later i ev = CompletesLater (Str ''db down'')"

definition empty_cstate :: cstate where
  "empty_cstate = \<lparr> trace = [], successes = 0, pending = [] \<rparr>"

definition empty_ostate :: ostate where
  "empty_ostate = \<lparr> trace = [], badMessages = [] \<rparr>"

text \<open>A handler that reports an error before it returns.\<close>

definition fails_now :: handler where
  "fails_now i ev = CompletesNow (Str ''db down'')"

text \<open>The same instance with a transformer that throws.\<close>

definition throwing_transformer :: transformer where
  "throwing_transformer payload record = Throw (Error ''Error'' ''boom'')"

definition demo_handler_throwing :: "string list handler_state" where
  "demo_handler_throwing =
     (demo_handler ok_later)\<lparr>transfomer := Function 2 throwing_transformer\<rparr>"

text \<open>A handler that calls \<^verbatim>\<open>complete()\<close> and then throws, and one that only throws.\<close>

definition completes_then_throws :: handler where
  "completes_then_throws i ev = CompletesThenRaises Undefined (Error ''Error'' ''after'')"

definition throws_now :: handler where
  "throws_now i ev = Raises (Error ''Error'' ''boom'')"

section \<open>Classes of records\<close>

text \<open>
  A record for which both record loops take a bad-message branch before any
  dispatch: it has no truthy \<^verbatim>\<open>kinesis\<close>, or no truthy \<^verbatim>\<open>kinesis.data\<close>, or decoding
  and parsing its payload throws. The message is the one the loops build for it.
\<close>

definition undecodable :: "'v env \<Rightarrow> jsval \<Rightarrow> bool" where
  "undecodable env record =
     (case get_prop record ''kinesis'' of
        Throw e \<Rightarrow> False
      | Return kin \<Rightarrow>
          \<not> truthy kin \<or>
          (case get_prop kin ''data'' of
             Throw e \<Rightarrow> False
           | Return d \<Rightarrow>
               \<not> truthy d
               \<or> (case decode env d of Throw ex \<Rightarrow> True | Return parsed \<Rightarrow> False)))"

definition decode_failure_msg :: "'v env \<Rightarrow> jsval \<Rightarrow> jsval" where
  "decode_failure_msg env record =
     (case get_prop record ''kinesis'' of
        Throw e \<Rightarrow> Undefined
      | Return kin \<Rightarrow>
          if \<not> truthy kin then bad_msg '' record missing Kinesis data.''
          else
            (case get_prop kin ''data'' of
               Throw e \<Rightarrow> Undefined
             | Return d \<Rightarrow>
                 if \<not> truthy d then bad_msg '' record missing Kinesis data.''
                 else
                   (case decode env d of
                      Throw ex \<Rightarrow>
                        bad_msg ('' failed to decode and parse the data - '' @ [CHR 0x22]
                          @ stack env ex @ [CHR 0x22] @ ''.'')
                    | Return parsed \<Rightarrow> Undefined)))"

section \<open>Classes of batches\<close>

text \<open>
  A batch that fails the shape check of \<^verbatim>\<open>processKinesisEvent\<close>: it is falsy, or its
  \<^verbatim>\<open>Records\<close> is not an array.
\<close>

definition malformed :: "jsval \<Rightarrow> bool" where
  "malformed kinesisEvent =
     (\<not> truthy kinesisEvent
      \<or> (case get_prop kinesisEvent ''Records'' of
            Throw e \<Rightarrow> False
          | Return (Arr records) \<Rightarrow> False
          | Return other \<Rightarrow> True))"

text \<open>
  The event a record hands to \<^verbatim>\<open>processEvent\<close>, if it gets that far: the payload is
  there, decodes to a truthy value, and the transformer (if any) returns.
\<close>

definition candidate :: "'v env \<Rightarrow> 'v handler_state \<Rightarrow> jsval \<Rightarrow> jsval option" where
  "candidate env h record =
     (case get_prop record ''kinesis'' of
        Throw e \<Rightarrow> None
      | Return kin \<Rightarrow>
          if \<not> truthy kin then None
          else
            (case get_prop kin ''data'' of
               Throw e \<Rightarrow> None
             | Return d \<Rightarrow>
                 if \<not> truthy d then None
                 else
                   (case decode env d of
                      Throw ex \<Rightarrow> None
                    | Return parsed \<Rightarrow>
                        if truthy parsed then
                          (case transform h parsed record of
                             Throw e \<Rightarrow> None
                           | Return ev \<Rightarrow> Some ev)
                        else None)))"


text \<open>
  The handler registered under \<open>k\<close> is a function that, called for the record at
  position \<open>i\<close> with the event, throws after its completion has returned to it.
  And a record that, at position \<open>i\<close>, is routed to such a handler.
\<close>

definition handler_throws_after_completing ::
  "'v handler_state \<Rightarrow> nat \<Rightarrow> string \<Rightarrow> jsval \<Rightarrow> bool" where
  "handler_throws_after_completing h i k ev =
     (case schemaMethodPairs h k of
        None \<Rightarrow> False
      | Some (NotFunction v) \<Rightarrow> False
      | Some (Function a f) \<Rightarrow>
          (case f i ev of
             CompletesThenRaises err ex \<Rightarrow> True
           | other \<Rightarrow> False))"

definition throws_after_completing ::
  "'v env \<Rightarrow> 'v handler_state \<Rightarrow> nat \<Rightarrow> jsval \<Rightarrow> bool" where
  "throws_after_completing env h i record =
     (case candidate env h record of
        None \<Rightarrow> False
      | Some ev \<Rightarrow>
          (case processEvent env h ev of
             Invoke k ev' \<Rightarrow> handler_throws_after_completing h i k ev'
           | other \<Rightarrow> False))"

text \<open>
  The handler registered under \<open>k\<close> is a function and, called for the record at
  position \<open>i\<close> with the event, calls its completion exactly once, before it
  returns or later, with a value that is not fatal, and returns without throwing.
\<close>

definition handler_settles :: "'v handler_state \<Rightarrow> nat \<Rightarrow> string \<Rightarrow> jsval \<Rightarrow> bool" where
  "handler_settles h i k ev =
     (case schemaMethodPairs h k of
        None \<Rightarrow> False
      | Some (NotFunction v) \<Rightarrow> False
      | Some (Function a f) \<Rightarrow>
          (case f i ev of
             CompletesNow err \<Rightarrow> \<not> fatal h err
           | CompletesLater err \<Rightarrow> \<not> fatal h err
           | NeverCompletes \<Rightarrow> False
           | Raises ex \<Rightarrow> False
           | CompletesThenRaises err ex \<Rightarrow> False))"

text \<open>
  A record that, at position \<open>i\<close>, yields exactly one completion in the concurrent
  driver, and not a fatal one: it cannot be decoded, or its event is answered by
  the dispatcher itself, or it is routed to a handler that settles.
\<close>

definition settles :: "'v env \<Rightarrow> 'v handler_state \<Rightarrow> nat \<Rightarrow> jsval \<Rightarrow> bool" where
  "settles env h i record =
     (undecodable env record
      \<or> (case candidate env h record of
            None \<Rightarrow> False
          | Some ev \<Rightarrow>
              (case processEvent env h ev of
                 Complete err \<Rightarrow> True
               | Invoke k ev' \<Rightarrow> handler_settles h i k ev'
               | Raise e \<Rightarrow> False)))"

section \<open>Invariants of the drivers\<close>

text \<open>
  The positions of the records that a trace mentions, in the order of the trace.
\<close>

fun positions :: "obs list \<Rightarrow> nat list" where
  "positions [] = []"
| "positions (Decoding i # tr) = i # positions tr"
| "positions (Invoked i k ev # tr) = i # positions tr"
| "positions (Completed i e # tr) = i # positions tr"
| "positions (ob # tr) = positions tr"

fun progress_state :: "progress \<Rightarrow> ostate" where
  "progress_state (Continue t st) = st"
| "progress_state (Halt st) = st"

fun halted :: "progress \<Rightarrow> bool" where
  "halted (Continue t st) = False"
| "halted (Halt st) = True"

text \<open>
  The Error that the ordered driver's completion closure throws for \<open>err\<close>, seen
  either as the argument of the callback or as an uncaught exception.
\<close>

definition raised :: "'v handler_state \<Rightarrow> jsval \<Rightarrow> obs \<Rightarrow> bool" where
  "raised h err ob =
     (ob = Callback (Error ''Error'' (msg_prefix h @ to_string err))
      \<or> ob = Uncaught (Error ''Error'' (msg_prefix h @ to_string err)))"

text \<open>
  A stretch of trace without a callback and without a completion that carries an
  error; and a stretch in which a completion with an error, if there is one, is
  followed by the Error raised for it and by nothing else, after a quiet stretch.
\<close>

definition quiet :: "obs list \<Rightarrow> bool" where
  "quiet tr = (callbacks tr = [] \<and> (\<forall>(j, e) \<in> set (completions tr). \<not> truthy e))"

definition stops :: "'v handler_state \<Rightarrow> obs list \<Rightarrow> bool" where
  "stops h tr =
     (\<forall>k err. (k, err) \<in> set (completions tr) \<and> truthy err \<longrightarrow>
        (\<exists>pre E. tr = pre @ [Completed k err, E] \<and> raised h err E
           \<and> callbacks pre = [] \<and> (\<forall>(j, e) \<in> set (completions pre). \<not> truthy e)))"




text \<open>
  The bookkeeping of a batch in which every record settles: the counter is the
  number of completions seen, the completions seen and the ones outstanding are
  one for each of the first \<open>i\<close> records, and none of them is fatal. The callback
  has been called, as the last thing, exactly if the counter has reached \<open>n\<close>.
\<close>

definition tally :: "'v handler_state \<Rightarrow> nat \<Rightarrow> (nat \<times> jsval) list \<Rightarrow> cstate \<Rightarrow> bool" where
  "tally h i out st =
     (successes st = length (completions (trace st))
      \<and> mset (map fst (completions (trace st))) + mset (map fst out) = mset [0..<i]
      \<and> (\<forall>(j, e) \<in> set out. \<not> fatal h e)
      \<and> (\<forall>(j, e) \<in> set (completions (trace st)). \<not> fatal h e))"

definition signal :: "nat \<Rightarrow> cstate \<Rightarrow> bool" where
  "signal n st =
     (if successes st = n
      then (\<exists>tr. trace st = tr @ [Callback Undefined] \<and> callbacks tr = [])
      else callbacks (trace st) = [])"

section \<open>Basic facts\<close>

lemma trace_emit: "trace (emit ob st) = trace st @ [ob]"
  by (simp add: emit_def)

lemma successes_emit: "successes (emit ob st) = successes st"
  by (simp add: emit_def)

lemma pending_emit: "pending (emit ob st) = pending st"
  by (simp add: emit_def)

lemma badMessages_emit: "badMessages (emit ob st) = badMessages st"
  by (simp add: emit_def)

lemma trace_push: "trace (push v st) = trace st"
  by (simp add: push_def)

lemma callbacks_append: "callbacks (xs @ ys) = callbacks xs @ callbacks ys"
  by (induction xs rule: callbacks.induct) simp_all

lemma completions_append: "completions (xs @ ys) = completions xs @ completions ys"
  by (induction xs rule: completions.induct) simp_all


lemma decodings_append: "decodings (xs @ ys) = decodings xs @ decodings ys"
  by (induction xs rule: decodings.induct) simp_all

lemma indexOf_found_prefix: "prefix needle hay \<Longrightarrow> indexOf_found hay needle"
  by (cases hay) simp_all

text \<open>Every message the drivers and the dispatcher build themselves passes the test.\<close>

lemma bad_msg_not_fatal: "\<not> fatal h (bad_msg rest)"
  by (simp add: fatal_def bad_msg_def indexOf_found_prefix)


lemma complete_counts:
  "\<not> fatal h err \<Longrightarrow>
   complete h n i err st =
     (None, if Suc (successes st) = n
            then emit (Callback Undefined)
                   ((emit (Completed i err) st)\<lparr>successes := Suc (successes st)\<rparr>)
            else (emit (Completed i err) st)\<lparr>successes := Suc (successes st)\<rparr>)"
  by (auto simp add: complete_def fatal_def Let_def emit_def)

section \<open>Registration\<close>

text \<open>
  The instance used in the examples is the one the constructor and one registration
  build, for either handler.
\<close>

lemma demo_handler_built:
  "KinesisHandler demo_env (schema_doc ''stream'') (Str ''m'') (NotFunction Undefined)
     = Return \<lparr> eventSchemaId = ''com.shop/stream/1-0-0'', module = ''m'',
                 transfomer = NotFunction Undefined, schemaMethodPairs = Map.empty,
                 ajv = [''com.shop/stream/1-0-0''] \<rparr>
   \<and> KinesisSynchronousHandler demo_env (schema_doc ''stream'') (Str ''m'') (NotFunction Undefined)
     = KinesisHandler demo_env (schema_doc ''stream'') (Str ''m'') (NotFunction Undefined)
   \<and> registerSchemaMethodPair demo_env
         \<lparr> eventSchemaId = ''com.shop/stream/1-0-0'', module = ''m'',
           transfomer = NotFunction Undefined, schemaMethodPairs = Map.empty,
           ajv = [''com.shop/stream/1-0-0''] \<rparr>
         (schema_doc ''order'') (Function 2 f)
     = (None, demo_handler f)"
  by (simp add: KinesisHandler_def KinesisSynchronousHandler_def registerSchemaMethodPair_def
        demo_env_def schema_doc_def makeSchemaId_def demo_addSchema_def demo_handler_def)

text \<open>
  In both handlers of the main file a method that is not a function of two
  parameters makes the registration throw, and the pairs are left as they were.
\<close>

lemma registration_checks_arity:
  assumes "\<forall>f. js_method \<noteq> Function 2 f"
  shows "fst (registerSchemaMethodPair env h schema js_method) \<noteq> None
         \<and> schemaMethodPairs (snd (registerSchemaMethodPair env h schema js_method))
             = schemaMethodPairs h"
  using assms
  by (cases js_method)
     (auto simp add: registerSchemaMethodPair_def split: result.splits prod.splits option.splits)

text \<open>
  Claim C8. A registration with a method that is not a function of exactly two
  parameters is to fail at registration time. The registration of
  \<^verbatim>\<open>src/lib/kinesis-handler.js\<close> does not: called with a function of one parameter,
  or with the string \<^verbatim>\<open>'oops'\<close>, as the method it throws nothing and stores the
  method in the pairs, under the identity of the schema.
\<close>

theorem lib_registration_unchecked:
  "lib_registerSchemaMethodPair demo_env (demo_handler ok_later) (schema_doc ''audit'')
       (Function 1 ok_later) =
     (None, (demo_handler ok_later)\<lparr>
        ajv := [''com.shop/audit/1-0-0'', ''com.shop/order/1-0-0'', ''com.shop/stream/1-0-0''],
        schemaMethodPairs := (schemaMethodPairs (demo_handler ok_later))
           (''com.shop/audit/1-0-0'' \<mapsto> Function 1 ok_later)\<rparr>)
   \<and> lib_registerSchemaMethodPair demo_env (demo_handler ok_later) (schema_doc ''audit'')
       (NotFunction (Str ''oops'')) =
     (None, (demo_handler ok_later)\<lparr>
        ajv := [''com.shop/audit/1-0-0'', ''com.shop/order/1-0-0'', ''com.shop/stream/1-0-0''],
        schemaMethodPairs := (schemaMethodPairs (demo_handler ok_later))
           (''com.shop/audit/1-0-0'' \<mapsto> NotFunction (Str ''oops''))\<rparr>)"
  by (simp add: lib_registerSchemaMethodPair_def makeSchemaId_def schema_doc_def
        demo_env_def demo_addSchema_def demo_handler_def)

text \<open>
  Claim C10. Registration is not atomic: the schema is added to the validator
  before the method is looked at. When the identity of the schema can be derived
  and the validator takes the schema, a method that is not a function of two
  parameters makes the call throw the contract error, and the instance is left
  with the validator as \<^verbatim>\<open>addSchema\<close> returned it and with the pairs it had.
\<close>

theorem registration_not_atomic:
  assumes "makeSchemaId schema = Return schemaId"
      and "addSchema env schema schemaId (ajv h) = (None, a)"
      and "\<forall>f. js_method \<noteq> Function 2 f"
  shows "registerSchemaMethodPair env h schema js_method =
           (Some (Error ''Error''
              ''Method must be a function of the form (event, callback) => { . . . }''),
            h\<lparr>ajv := a\<rparr>)
         \<and> ajv (snd (registerSchemaMethodPair env h schema js_method)) = a
         \<and> schemaMethodPairs (snd (registerSchemaMethodPair env h schema js_method))
             = schemaMethodPairs h"
  using assms by (cases js_method) (auto simp add: registerSchemaMethodPair_def)

theorem registration_not_atomic_witness:
  "registerSchemaMethodPair demo_env (demo_handler ok_later) (schema_doc ''audit'')
       (Function 1 ok_later) =
     (Some (Error ''Error''
        ''Method must be a function of the form (event, callback) => { . . . }''),
      (demo_handler ok_later)\<lparr>ajv := [''com.shop/audit/1-0-0'', ''com.shop/order/1-0-0'',
                                       ''com.shop/stream/1-0-0'']\<rparr>)
   \<and> ajv (snd (registerSchemaMethodPair demo_env (demo_handler ok_later)
              (schema_doc ''audit'') (Function 1 ok_later)))
       = [''com.shop/audit/1-0-0'', ''com.shop/order/1-0-0'', ''com.shop/stream/1-0-0'']
   \<and> schemaMethodPairs (snd (registerSchemaMethodPair demo_env (demo_handler ok_later)
              (schema_doc ''audit'') (Function 1 ok_later)))
       = schemaMethodPairs (demo_handler ok_later)"
proof -
  have id: "makeSchemaId (schema_doc ''audit'') = Return ''com.shop/audit/1-0-0''"
    by (simp add: makeSchemaId_def schema_doc_def)
  have add: "addSchema demo_env (schema_doc ''audit'') ''com.shop/audit/1-0-0''
               (ajv (demo_handler ok_later))
             = (None, [''com.shop/audit/1-0-0'', ''com.shop/order/1-0-0'',
                       ''com.shop/stream/1-0-0''])"
    by (simp add: demo_env_def demo_addSchema_def demo_handler_def)
  have bad: "\<forall>f'. Function 1 ok_later \<noteq> Function 2 f'" by simp
  show ?thesis
    using registration_not_atomic [OF id add bad] by simp
qed

section \<open>Dispatch of one event\<close>



text \<open>
  Claim C9. Dispatch reads \<^verbatim>\<open>event.data.schema\<close> without checking that
  \<^verbatim>\<open>event.data\<close> is there. For an event that passes the envelope checks and has no
  \<^verbatim>\<open>data\<close> field the read throws a TypeError: neither a rejection nor a completion
  is produced, in either driver. In the concurrent driver the state is as it was
  when the exception leaves \<^verbatim>\<open>processEvent\<close>; in the ordered driver the exception
  leaves the generator.
\<close>

theorem missing_data_throws:
  assumes "truthy event"
      and "get_prop event ''schema'' = Return (Str (eventSchemaId h))"
      and "eventSchemaId h \<noteq> []"
      and "validate env (eventSchemaId h) event (ajv h) = Valid"
      and "get_prop event ''data'' = Return Undefined"
  shows "processEvent env h event
           = Raise (Error ''TypeError'' ''Cannot read property schema of undefined'')
         \<and> dispatch env h n i event st
           = (Some (Error ''TypeError'' ''Cannot read property schema of undefined''), st)
         \<and> processEvent_sync env h event
           = Fail (Error ''TypeError'' ''Cannot read property schema of undefined'')
         \<and> dispatch_sync env h t i event ost
           = Halt (raise t (Error ''TypeError'' ''Cannot read property schema of undefined'') ost)"
  using assms by (simp add: processEvent_def processEvent_sync_def dispatch_def dispatch_sync_def)

theorem missing_data_throws_witness:
  "truthy bare_event
   \<and> get_prop bare_event ''data'' = Return Undefined
   \<and> processEvent demo_env (demo_handler ok_later) bare_event
       = Raise (Error ''TypeError'' ''Cannot read property schema of undefined'')
   \<and> dispatch demo_env (demo_handler ok_later) 1 0 bare_event empty_cstate
       = (Some (Error ''TypeError'' ''Cannot read property schema of undefined''), empty_cstate)
   \<and> dispatch_sync demo_env (demo_handler ok_later) Later 0 bare_event empty_ostate
       = Halt (emit (Uncaught (Error ''TypeError'' ''Cannot read property schema of undefined''))
                 empty_ostate)"
proof -
  have a1: "truthy bare_event" by (simp add: bare_event_def)
  have a2: "get_prop bare_event ''schema''
              = Return (Str (eventSchemaId (demo_handler ok_later)))"
    by (simp add: bare_event_def demo_handler_def)
  have a3: "eventSchemaId (demo_handler ok_later) \<noteq> []" by (simp add: demo_handler_def)
  have a4: "validate demo_env (eventSchemaId (demo_handler ok_later)) bare_event
              (ajv (demo_handler ok_later)) = Valid"
    by (simp add: demo_env_def bare_event_def)
  have a5: "get_prop bare_event ''data'' = Return Undefined"
    by (simp add: bare_event_def)
  show ?thesis
    using missing_data_throws [OF a1 a2 a3 a4 a5,
            where n = 1 and i = 0 and st = empty_cstate and t = Later and ost = empty_ostate]
          a1 a5
    by simp
qed

section \<open>Records that cannot be decoded\<close>

lemma undecodable_msg:
  "undecodable env record \<Longrightarrow> \<exists>rest. decode_failure_msg env record = bad_msg rest"
  by (auto simp add: undecodable_def decode_failure_msg_def split: result.splits)

lemma undecodable_body:
  "undecodable env record \<Longrightarrow>
   record_body env h n i record st = complete h n i (decode_failure_msg env record) st"
  by (auto simp add: undecodable_def decode_failure_msg_def record_body_def split: result.splits)




section \<open>Unfolding the examples\<close>

lemmas demo_defs = processKinesisEvent_sync_def processKinesisEvent_def run_concurrent_def
  batch_size_def batch_def rec_with_def rec_without_def
  record_turn_def record_body_def demo_env_def demo_decode_def order_event_def audit_event_def
  alien_event_def bare_event_def
  transform_def demo_handler_def dispatch_sync_def dispatch_def processEvent_sync_def
  processEvent_def invoke_def complete_def
  invoke_sync_def fails_later_def fails_now_def ok_later_def emit_def push_def bad_msg_def Let_def
  msg_prefix_def MODULE_def METHOD_PROCESS_EVENT_def BAD_MSG_def METHOD_PROCESS_KINESIS_EVENT_def
  no_records_def

section \<open>The ordered driver stops at the first error of a handler\<close>

lemma positions_append: "positions (xs @ ys) = positions xs @ positions ys"
  by (induction xs rule: positions.induct) simp_all

lemma decodings_positions: "set (decodings tr) \<subseteq> set (positions tr)"
  by (induction tr rule: positions.induct) auto

lemma invocations_positions: "set (invocations tr) \<subseteq> set (positions tr)"
  by (induction tr rule: positions.induct) auto

lemma quiet_stops: "quiet tr \<Longrightarrow> stops h tr"
  by (auto simp add: quiet_def stops_def)

lemma quiet_Nil: "quiet []"
  by (simp add: quiet_def)

lemma quiet_append: "quiet a \<Longrightarrow> quiet b \<Longrightarrow> quiet (a @ b)"
  by (auto simp add: quiet_def callbacks_append completions_append)

lemma stops_prepend: "quiet a \<Longrightarrow> stops h b \<Longrightarrow> stops h (a @ b)"
  unfolding stops_def quiet_def
proof (intro allI impI)
  fix k err
  assume q: "callbacks a = [] \<and> (\<forall>(j, e)\<in>set (completions a). \<not> truthy e)"
    and s: "\<forall>k err. (k, err) \<in> set (completions b) \<and> truthy err \<longrightarrow>
             (\<exists>pre E. b = pre @ [Completed k err, E] \<and> raised h err E \<and> callbacks pre = []
                \<and> (\<forall>(j, e)\<in>set (completions pre). \<not> truthy e))"
    and m: "(k, err) \<in> set (completions (a @ b)) \<and> truthy err"
  from m q have "(k, err) \<in> set (completions b)"
    by (auto simp add: completions_append)
  with s m obtain pre E where p: "b = pre @ [Completed k err, E]" "raised h err E"
      "callbacks pre = []" "\<forall>(j, e)\<in>set (completions pre). \<not> truthy e"
    by blast
  have "a @ b = (a @ pre) @ [Completed k err, E]" using p by simp
  moreover have "callbacks (a @ pre) = []" using p q by (simp add: callbacks_append)
  moreover have "\<forall>(j, e)\<in>set (completions (a @ pre)). \<not> truthy e"
    using p q by (auto simp add: completions_append)
  ultimately show "\<exists>pre E. a @ b = pre @ [Completed k err, E] \<and> raised h err E
      \<and> callbacks pre = [] \<and> (\<forall>(j, e)\<in>set (completions pre). \<not> truthy e)"
    using p(2) by blast
qed

lemma stops_fatal_end:
  "quiet pre \<Longrightarrow> truthy err \<Longrightarrow> raised h err E \<Longrightarrow> stops h (pre @ [Completed k err, E])"
  unfolding stops_def quiet_def raised_def
  by (auto simp add: completions_append)

lemma stops_raise_only: "stops h [Callback ex]" "stops h [Uncaught ex]" "stops h []" "stops h [Decoding i, Callback ex]"
  "stops h [Decoding i, Uncaught ex]" "stops h [Decoding i]"
  by (simp_all add: stops_def)

lemma trace_raise: "\<exists>E. trace (raise t ex st) = trace st @ [E] \<and> (E = Callback ex \<or> E = Uncaught ex)"
  by (cases t) (simp_all add: trace_emit)

lemma sorted_all_eq: "list_all (\<lambda>j. j = i) xs \<Longrightarrow> sorted (xs :: nat list)"
  by (induction xs) (auto simp add: list_all_iff)

text \<open>
  What one handler call, one dispatch and one iteration of the generator's loop add
  to the trace: only observations of the record at hand, at most one callback, and
  a stretch that stops at an error of the handler; if the loop goes on, the stretch
  is quiet.
\<close>

lemma invoke_sync_trace:
  "\<exists>step. trace (progress_state (invoke_sync h t i k ev st)) = trace st @ step
     \<and> list_all (\<lambda>j. j = i) (positions step)
     \<and> stops h step
     \<and> length (callbacks step) \<le> 1
     \<and> (\<forall>bm. Report bm \<notin> set step)
     \<and> (\<not> halted (invoke_sync h t i k ev st) \<longrightarrow> quiet step)"
proof (cases "schemaMethodPairs h k")
  case None
  then show ?thesis
    using trace_raise [of t "Error ''TypeError'' ''this.schemaMethodPairs[event.data.schema] is not a function''" st]
    by (auto simp add: invoke_sync_def stops_def)
next
  case (Some m)
  show ?thesis
  proof (cases m)
    case (NotFunction v)
    then show ?thesis
      using Some trace_raise [of t "Error ''TypeError'' ''this.schemaMethodPairs[event.data.schema] is not a function''" st]
      by (auto simp add: invoke_sync_def stops_def)
  next
    case (Function a f)
    show ?thesis
    proof (cases "f i ev")
      case (CompletesNow err)
      show ?thesis
      proof (cases "truthy err")
        case True
        have "stops h ([Invoked i k ev] @ [Completed i err, E])" if "raised h err E" for E
          using that True by (intro stops_fatal_end) (simp_all add: quiet_def)
        then show ?thesis
          using Some Function CompletesNow True
          by (cases t) (auto simp add: invoke_sync_def Let_def trace_emit raised_def)
      next
        case False
        then show ?thesis
          using Some Function CompletesNow
          by (cases t) (auto simp add: invoke_sync_def Let_def trace_emit stops_def)
      qed
    next
      case (CompletesLater err)
      show ?thesis
      proof (cases "truthy err")
        case True
        have "stops h ([Invoked i k ev] @ [Completed i err, E])" if "raised h err E" for E
          using that True by (intro stops_fatal_end) (simp_all add: quiet_def)
        then show ?thesis
          using Some Function CompletesLater True
          by (auto simp add: invoke_sync_def Let_def trace_emit raised_def)
      next
        case False
        then show ?thesis
          using Some Function CompletesLater
          by (auto simp add: invoke_sync_def Let_def trace_emit stops_def quiet_def)
      qed
    next
      case NeverCompletes
      then show ?thesis
        using Some Function by (auto simp add: invoke_sync_def Let_def trace_emit stops_def)
    next
      case (Raises ex)
      then show ?thesis
        using Some Function trace_raise [of t ex "emit (Invoked i k ev) st"]
        by (auto simp add: invoke_sync_def Let_def trace_emit stops_def)
    next
      case (CompletesThenRaises err ex)
      show ?thesis
      proof (cases "truthy err")
        case True
        have "stops h ([Invoked i k ev] @ [Completed i err, E])" if "raised h err E" for E
          using that True by (intro stops_fatal_end) (simp_all add: quiet_def)
        then show ?thesis
          using Some Function CompletesThenRaises True
          by (cases t) (auto simp add: invoke_sync_def Let_def trace_emit raised_def)
      next
        case False
        then show ?thesis
          using Some Function CompletesThenRaises
          by (cases t) (auto simp add: invoke_sync_def Let_def trace_emit stops_def)
      qed
    qed
  qed
qed

lemma dispatch_sync_trace:
  "\<exists>step. trace (progress_state (dispatch_sync env h t i ev st)) = trace st @ step
     \<and> list_all (\<lambda>j. j = i) (positions step)
     \<and> stops h step
     \<and> length (callbacks step) \<le> 1
     \<and> (\<forall>bm. Report bm \<notin> set step)
     \<and> (\<not> halted (dispatch_sync env h t i ev st) \<longrightarrow> quiet step)"
proof (cases "processEvent_sync env h ev")
  case (Next v)
  then show ?thesis
    by (simp add: dispatch_sync_def trace_push quiet_Nil stops_raise_only)
next
  case (Call k ev')
  then show ?thesis
    using invoke_sync_trace [of h t i k ev' st] by (simp add: dispatch_sync_def)
next
  case (Fail e)
  then show ?thesis
    using trace_raise [of t e st] by (auto simp add: dispatch_sync_def stops_raise_only)
qed

lemma record_turn_trace:
  "\<exists>step. trace (progress_state (record_turn env h t i record st)) = trace st @ step
     \<and> list_all (\<lambda>j. j = i) (positions step)
     \<and> stops h step
     \<and> length (callbacks step) \<le> 1
     \<and> (\<forall>bm. Report bm \<notin> set step)
     \<and> (\<not> halted (record_turn env h t i record st) \<longrightarrow> quiet step)"
proof (cases "get_prop record ''kinesis''")
  case (Throw e)
  then show ?thesis
    using trace_raise [of t e st] by (auto simp add: record_turn_def stops_raise_only)
next
  case (Return kin)
  note kin = this
  show ?thesis
  proof (cases "truthy kin")
    case False
    then show ?thesis
      using kin by (simp add: record_turn_def trace_push quiet_Nil stops_raise_only)
  next
    case True
    note tk = this
    show ?thesis
    proof (cases "get_prop kin ''data''")
      case (Throw e)
      then show ?thesis
        using kin tk trace_raise [of t e st] by (auto simp add: record_turn_def stops_raise_only)
    next
      case (Return d)
      note d = this
      show ?thesis
      proof (cases "truthy d")
        case False
        then show ?thesis
          using kin tk d by (simp add: record_turn_def trace_push quiet_Nil stops_raise_only)
      next
        case True
        note td = this
        have q: "quiet [Decoding i]" by (simp add: quiet_def)
        show ?thesis
        proof (cases "decode env d")
          case (Throw ex)
          then show ?thesis
            using kin tk d td q
            by (simp add: record_turn_def Let_def trace_push trace_emit stops_raise_only)
        next
          case (Return parsed)
          note parsed = this
          show ?thesis
          proof (cases "truthy parsed")
            case False
            then show ?thesis
              using kin tk d td q parsed
              by (simp add: record_turn_def Let_def trace_emit stops_raise_only)
          next
            case True
            note tp = this
            show ?thesis
            proof (cases "transform h parsed record")
              case (Throw e)
              then show ?thesis
                using kin tk d td parsed tp trace_raise [of t e "emit (Decoding i) st"]
                by (auto simp add: record_turn_def Let_def trace_emit stops_raise_only)
            next
              case (Return ev)
              obtain step where s: "trace (progress_state (dispatch_sync env h t i ev (emit (Decoding i) st)))
                     = trace (emit (Decoding i) st) @ step"
                 "list_all (\<lambda>j. j = i) (positions step)" "stops h step"
                 "\<not> halted (dispatch_sync env h t i ev (emit (Decoding i) st)) \<longrightarrow> quiet step"
                 "length (callbacks step) \<le> 1" "\<forall>bm. Report bm \<notin> set step"
                using dispatch_sync_trace [of env h t i ev "emit (Decoding i) st"] by blast
              have rt: "record_turn env h t i record st = dispatch_sync env h t i ev (emit (Decoding i) st)"
                using kin tk d td parsed tp Return by (simp add: record_turn_def Let_def)
              have "trace (progress_state (record_turn env h t i record st)) = trace st @ ([Decoding i] @ step)"
                using s(1) rt by (simp add: trace_emit)
              moreover have "list_all (\<lambda>j. j = i) (positions ([Decoding i] @ step))"
                using s(2) by simp
              moreover have "stops h ([Decoding i] @ step)"
                using q s(3) by (rule stops_prepend)
              moreover have "length (callbacks ([Decoding i] @ step)) \<le> 1"
                using s(5) by simp
              moreover have "\<forall>bm. Report bm \<notin> set ([Decoding i] @ step)"
                using s(6) by simp
              moreover have "\<not> halted (record_turn env h t i record st) \<longrightarrow> quiet ([Decoding i] @ step)"
                using s(4) rt by (auto simp add: quiet_def callbacks_append completions_append)
              ultimately show ?thesis by blast
            qed
          qed
        qed
      qed
    qed
  qed
qed

text \<open>
  The generator from position \<open>i\<close> on only adds observations of the records from
  \<open>i\<close> on, in the order of the batch.
\<close>

lemma recordGenerator_trace:
  "\<exists>added. trace (recordGenerator env h t i recs st) = trace st @ added
     \<and> list_all (\<lambda>j. i \<le> j) (positions added)
     \<and> sorted (positions added)
     \<and> stops h added
     \<and> length (callbacks added) \<le> 1
     \<and> ((\<exists>bm. Report bm \<in> set added) \<longrightarrow> callbacks added = [])"
proof (induction recs arbitrary: t i st)
  case Nil
  show ?case by (simp add: trace_emit stops_def)
next
  case (Cons r rest)
  obtain step where s: "trace (progress_state (record_turn env h t i r st)) = trace st @ step"
      "list_all (\<lambda>j. j = i) (positions step)" "stops h step"
      "\<not> halted (record_turn env h t i r st) \<longrightarrow> quiet step"
      "length (callbacks step) \<le> 1" "\<forall>bm. Report bm \<notin> set step"
    using record_turn_trace [of env h t i r st] by blast
  have ge: "list_all (\<lambda>j. i \<le> j) (positions step)"
    using s(2) by (simp add: list_all_iff)
  have so: "sorted (positions step)"
    using s(2) by (rule sorted_all_eq)
  show ?case
  proof (cases "record_turn env h t i r st")
    case (Halt st')
    then show ?thesis using s ge so by auto
  next
    case (Continue t' st')
    obtain added where a: "trace (recordGenerator env h t' (Suc i) rest st') = trace st' @ added"
        "list_all (\<lambda>j. Suc i \<le> j) (positions added)" "sorted (positions added)" "stops h added"
        "length (callbacks added) \<le> 1"
        "(\<exists>bm. Report bm \<in> set added) \<longrightarrow> callbacks added = []"
      using Cons.IH [of t' "Suc i" st'] by blast
    have q: "quiet step" using s(4) Continue by simp
    have st': "trace st' = trace st @ step" using s(1) Continue by simp
    have "trace (recordGenerator env h t i (r # rest) st) = trace st @ (step @ added)"
      using Continue a(1) st' by simp
    moreover have "list_all (\<lambda>j. i \<le> j) (positions (step @ added))"
      using ge a(2) by (auto simp add: positions_append list_all_iff)
    moreover have "sorted (positions (step @ added))"
      using so a(2) a(3) s(2) by (auto simp add: positions_append sorted_append list_all_iff)
    moreover have "stops h (step @ added)"
      using q a(4) by (rule stops_prepend)
    moreover have "length (callbacks (step @ added)) \<le> 1"
      using q a(5) by (simp add: quiet_def callbacks_append)
    moreover have "(\<exists>bm. Report bm \<in> set (step @ added)) \<longrightarrow> callbacks (step @ added) = []"
      using q a(6) s(6) by (auto simp add: quiet_def callbacks_append)
    ultimately show ?thesis by blast
  qed
qed

lemma processKinesisEvent_sync_trace:
  "sorted (positions (trace (processKinesisEvent_sync env h kinesisEvent)))
   \<and> stops h (trace (processKinesisEvent_sync env h kinesisEvent))
   \<and> length (callbacks (trace (processKinesisEvent_sync env h kinesisEvent))) \<le> 1
   \<and> ((\<exists>bm. Report bm \<in> set (trace (processKinesisEvent_sync env h kinesisEvent)))
        \<longrightarrow> callbacks (trace (processKinesisEvent_sync env h kinesisEvent)) = [])"
proof -
  have g: "sorted (positions (trace (recordGenerator env h Initial 0 records \<lparr>trace = [], badMessages = []\<rparr>)))
       \<and> stops h (trace (recordGenerator env h Initial 0 records \<lparr>trace = [], badMessages = []\<rparr>))
       \<and> length (callbacks (trace (recordGenerator env h Initial 0 records \<lparr>trace = [], badMessages = []\<rparr>))) \<le> 1
       \<and> ((\<exists>bm. Report bm \<in> set (trace (recordGenerator env h Initial 0 records \<lparr>trace = [], badMessages = []\<rparr>)))
            \<longrightarrow> callbacks (trace (recordGenerator env h Initial 0 records \<lparr>trace = [], badMessages = []\<rparr>)) = [])" for records
    using recordGenerator_trace [of env h Initial 0 records "\<lparr>trace = [], badMessages = []\<rparr>"]
    by auto
  show ?thesis
    using g
    by (auto simp add: processKinesisEvent_sync_def Let_def trace_emit stops_def
          split: result.splits jsval.splits)
qed

text \<open>
  Claim C4. Ordered driver: when the handler of the record at position \<open>k\<close> (counted
  from 0) completes with a truthy error, the Error made from it is raised and the
  run is over. The completion and the raised Error are the last two observations
  of the run; before them the callback was not called and no handler completed with
  an error, so this record is the first to fail; and no record after \<open>k\<close> is ever
  decoded or handed to a handler. The Error reaches the caller either as the
  argument of the callback (when the handler completes before it returns, inside
  the \<^verbatim>\<open>try\<close> of \<^verbatim>\<open>processKinesisEvent\<close>), or as an exception that nothing catches
  (when the handler completes in a later turn); in neither case is it handed over
  as a completed batch.
\<close>

theorem fatal_completion_stops_ordered_batch:
  assumes "(k, err) \<in> set (completions (trace (processKinesisEvent_sync env h kinesisEvent)))"
      and "truthy err"
  shows "\<exists>pre E. trace (processKinesisEvent_sync env h kinesisEvent) = pre @ [Completed k err, E]
           \<and> (E = Callback (Error ''Error'' (msg_prefix h @ to_string err))
                \<or> E = Uncaught (Error ''Error'' (msg_prefix h @ to_string err)))
           \<and> callbacks pre = []
           \<and> (\<forall>(j, e) \<in> set (completions pre). \<not> truthy e)
           \<and> (\<forall>j \<in> set (decodings (trace (processKinesisEvent_sync env h kinesisEvent))). j \<le> k)
           \<and> (\<forall>j \<in> set (invocations (trace (processKinesisEvent_sync env h kinesisEvent))). j \<le> k)"
proof -
  let ?tr = "trace (processKinesisEvent_sync env h kinesisEvent)"
  have so: "sorted (positions ?tr)" and st: "stops h ?tr"
    using processKinesisEvent_sync_trace [of env h kinesisEvent] by simp_all
  from st assms obtain pre E where p: "?tr = pre @ [Completed k err, E]" "raised h err E"
      "callbacks pre = []" "\<forall>(j, e) \<in> set (completions pre). \<not> truthy e"
    unfolding stops_def by blast
  have pE: "positions [Completed k err, E] = [k]"
    using p(2) by (auto simp add: raised_def)
  have le: "\<forall>j \<in> set (positions ?tr). j \<le> k"
    using so unfolding p(1) positions_append pE by (auto simp add: sorted_append)
  have "\<forall>j \<in> set (decodings ?tr). j \<le> k"
    using le decodings_positions [of ?tr] by blast
  moreover have "\<forall>j \<in> set (invocations ?tr). j \<le> k"
    using le invocations_positions [of ?tr] by blast
  ultimately show ?thesis
    using p unfolding raised_def by blast
qed

theorem fatal_completion_stops_ordered_batch_witness:
  "(1, Str ''db down'') \<in> set (completions (trace (processKinesisEvent_sync demo_env
       (demo_handler fails_later) (batch [rec_without, rec_with ''order'', rec_with ''order'']))))
   \<and> truthy (Str ''db down'')
   \<and> (\<exists>pre E. trace (processKinesisEvent_sync demo_env (demo_handler fails_later)
                  (batch [rec_without, rec_with ''order'', rec_with ''order'']))
                = pre @ [Completed 1 (Str ''db down''), E])
   \<and> last (trace (processKinesisEvent_sync demo_env (demo_handler fails_later)
              (batch [rec_without, rec_with ''order'', rec_with ''order''])))
       = Uncaught (Error ''Error'' ''lib/kinesisHandler.js for m db down'')
   \<and> decodings (trace (processKinesisEvent_sync demo_env (demo_handler fails_later)
        (batch [rec_without, rec_with ''order'', rec_with ''order'']))) = [1]
   \<and> invocations (trace (processKinesisEvent_sync demo_env (demo_handler fails_later)
        (batch [rec_without, rec_with ''order'', rec_with ''order'']))) = [1]
   \<and> (0, Str ''db down'') \<in> set (completions (trace (processKinesisEvent_sync demo_env
       (demo_handler fails_now) (batch [rec_with ''order'', rec_with ''order'']))))
   \<and> (\<exists>pre E. trace (processKinesisEvent_sync demo_env (demo_handler fails_now)
                  (batch [rec_with ''order'', rec_with ''order'']))
                = pre @ [Completed 0 (Str ''db down''), E])
   \<and> last (trace (processKinesisEvent_sync demo_env (demo_handler fails_now)
              (batch [rec_with ''order'', rec_with ''order''])))
       = Callback (Error ''Error'' ''lib/kinesisHandler.js for m db down'')
   \<and> invocations (trace (processKinesisEvent_sync demo_env (demo_handler fails_now)
        (batch [rec_with ''order'', rec_with ''order'']))) = [0]"
proof -
  have run: "trace (processKinesisEvent_sync demo_env (demo_handler fails_later)
                (batch [rec_without, rec_with ''order'', rec_with ''order'']))
             = [Decoding 1, Invoked 1 ''com.shop/order/1-0-0'' order_event,
                Completed 1 (Str ''db down''),
                Uncaught (Error ''Error'' ''lib/kinesisHandler.js for m db down'')]"
    by (simp add: demo_defs)
  have m: "(1, Str ''db down'') \<in> set (completions (trace (processKinesisEvent_sync demo_env
       (demo_handler fails_later) (batch [rec_without, rec_with ''order'', rec_with ''order'']))))"
    by (simp add: run)
  have run': "trace (processKinesisEvent_sync demo_env (demo_handler fails_now)
                (batch [rec_with ''order'', rec_with ''order'']))
             = [Decoding 0, Invoked 0 ''com.shop/order/1-0-0'' order_event,
                Completed 0 (Str ''db down''),
                Callback (Error ''Error'' ''lib/kinesisHandler.js for m db down'')]"
    by (simp add: demo_defs)
  have m': "(0, Str ''db down'') \<in> set (completions (trace (processKinesisEvent_sync demo_env
       (demo_handler fails_now) (batch [rec_with ''order'', rec_with ''order'']))))"
    by (simp add: run')
  have t: "truthy (Str ''db down'')" by simp
  show ?thesis
    using fatal_completion_stops_ordered_batch [OF m t]
          fatal_completion_stops_ordered_batch [OF m' t] m m' t
    by (auto simp add: run run')
qed

section \<open>The ordered driver on a batch that is drained to its end\<close>

text \<open>
  When the generator reaches the end of its loop, where the bad messages are
  logged, the callback has not been called, and nothing calls it afterwards.
\<close>

lemma drained_batch_never_calls_back:
  "Report bm \<in> set (trace (processKinesisEvent_sync env h kinesisEvent)) \<Longrightarrow>
   callbacks (trace (processKinesisEvent_sync env h kinesisEvent)) = []"
  using processKinesisEvent_sync_trace [of env h kinesisEvent] by blast

text \<open>
  Claim C3. A batch of five records whose second record is of another envelope and
  whose fourth cannot be parsed, with a handler that completes each routed event
  in a later turn without error. The ordered driver drains the whole batch: the
  handler is invoked for the records at positions 1, 3 and 5 in that order, the
  two bad messages are collected and logged when the generator ends. The callback
  is never called: the success signal the claim asks for is missing.
\<close>

theorem ordered_batch_never_calls_back:
  "invocations (trace (processKinesisEvent_sync demo_env (demo_handler ok_later)
       (batch [rec_with ''order'', rec_with ''alien'', rec_with ''order'', rec_with ''junk'',
               rec_with ''order''])))
     = [0, 2, 4]
   \<and> length (badMessages (processKinesisEvent_sync demo_env (demo_handler ok_later)
       (batch [rec_with ''order'', rec_with ''alien'', rec_with ''order'', rec_with ''junk'',
               rec_with ''order'']))) = 2
   \<and> last (trace (processKinesisEvent_sync demo_env (demo_handler ok_later)
       (batch [rec_with ''order'', rec_with ''alien'', rec_with ''order'', rec_with ''junk'',
               rec_with ''order''])))
     = Report (badMessages (processKinesisEvent_sync demo_env (demo_handler ok_later)
       (batch [rec_with ''order'', rec_with ''alien'', rec_with ''order'', rec_with ''junk'',
               rec_with ''order''])))
   \<and> callbacks (trace (processKinesisEvent_sync demo_env (demo_handler ok_later)
       (batch [rec_with ''order'', rec_with ''alien'', rec_with ''order'', rec_with ''junk'',
               rec_with ''order'']))) = []"
  by (simp add: processKinesisEvent_sync_def batch_def rec_with_def record_turn_def
        demo_env_def demo_decode_def order_event_def alien_event_def
        transform_def demo_handler_def dispatch_sync_def processEvent_sync_def
        invoke_sync_def ok_later_def emit_def push_def bad_msg_def Let_def)

section \<open>The callback of the concurrent driver is called at most once\<close>















text \<open>
  The condition on the handlers is needed: with a handler that calls \<^verbatim>\<open>complete()\<close>
  and then throws, a batch of one record gets \<^verbatim>\<open>callback()\<close> from the counter and then
  \<^verbatim>\<open>callback(ex)\<close> from the \<^verbatim>\<open>catch\<close> of \<^verbatim>\<open>processKinesisEvent\<close>.
\<close>

lemma completing_then_throwing_calls_back_twice:
  "throws_after_completing demo_env (demo_handler completes_then_throws) 0 (rec_with ''order'')
   \<and> trace (run_concurrent demo_env (demo_handler completes_then_throws)
        (batch [rec_with ''order'']) [])
     = [Invoked 0 ''com.shop/order/1-0-0'' order_event, Completed 0 Undefined,
        Callback Undefined, Callback (Error ''Error'' ''after'')]"
  by (simp add: demo_defs completes_then_throws_def throws_after_completing_def
        handler_throws_after_completing_def candidate_def)

text \<open>
  So is the condition on the arrivals: a handler that puts \<^verbatim>\<open>complete()\<close> off and then
  throws gets \<^verbatim>\<open>callback(ex)\<close> from the \<^verbatim>\<open>catch\<close>, and when its completion arrives,
  which is not one of those in \<open>pending\<close>, the counter reaches the number of records
  and \<^verbatim>\<open>callback()\<close> follows.
\<close>

lemma completion_after_throwing_calls_back_twice:
  "pending (processKinesisEvent demo_env (demo_handler throws_now) (batch [rec_with ''order'']))
     = []
   \<and> \<not> throws_after_completing demo_env (demo_handler throws_now) 0 (rec_with ''order'')
   \<and> trace (run_concurrent demo_env (demo_handler throws_now) (batch [rec_with ''order''])
        [(0, Undefined)])
     = [Invoked 0 ''com.shop/order/1-0-0'' order_event, Callback (Error ''Error'' ''boom''),
        Completed 0 Undefined, Callback Undefined]"
  by (simp add: demo_defs throws_now_def throws_after_completing_def
        handler_throws_after_completing_def candidate_def)


section \<open>The concurrent driver on a batch in which every record settles\<close>

lemma processEvent_Complete_not_fatal:
  "processEvent env h ev = Complete err \<Longrightarrow> \<not> fatal h err"
proof -
  have u: "\<not> fatal h Undefined" by (simp add: fatal_def)
  show "processEvent env h ev = Complete err \<Longrightarrow> \<not> fatal h err"
    using u
    by (auto simp add: processEvent_def bad_msg_not_fatal
          split: if_splits result.splits validation.splits)
qed

lemma candidate_body:
  "candidate env h record = Some ev \<Longrightarrow>
   record_body env h n i record st = dispatch env h n i ev st"
  by (auto simp add: candidate_def record_body_def split: result.splits if_splits)

lemma tally_size: "tally h i out st \<Longrightarrow> successes st + length out = i"
proof -
  assume t: "tally h i out st"
  then have "size (mset (map fst (completions (trace st))) + mset (map fst out)) = size (mset [0..<i])"
    by (simp add: tally_def)
  then show ?thesis using t by (simp add: tally_def)
qed

lemma complete_tally:
  assumes nf: "\<not> fatal h err" and t: "tally h i out st" and s: "signal n st"
      and lt: "successes st < n"
  shows "\<exists>st'. complete h n i err st = (None, st')
           \<and> tally h (Suc i) out st' \<and> signal n st' \<and> pending st' = pending st"
proof -
  have cb: "callbacks (trace st) = []" using s lt by (simp add: signal_def)
  show ?thesis
    using nf t cb
    by (auto simp add: complete_counts tally_def signal_def trace_emit successes_emit
          pending_emit completions_append callbacks_append)
qed

lemma complete_tally_arrival:
  assumes t: "tally h n ((j, err) # out) st" and s: "signal n st"
  shows "\<exists>st'. complete h n j err (st\<lparr>pending := p\<rparr>) = (None, st')
           \<and> tally h n out st' \<and> signal n st'"
proof -
  have nf: "\<not> fatal h err" using t by (simp add: tally_def)
  have "successes st + length ((j, err) # out) = n" using t by (rule tally_size)
  then have lt: "successes st < n" by simp
  have cb: "callbacks (trace st) = []" using s lt by (simp add: signal_def)
  show ?thesis
    using nf t cb
    by (auto simp add: complete_counts tally_def signal_def trace_emit successes_emit
          completions_append callbacks_append emit_def)
qed

lemma invoke_tally:
  assumes hs: "handler_settles h i k ev" and t: "tally h i (pending st) st" and s: "signal n st"
      and lt: "i < n"
  shows "\<exists>st'. invoke h n i k ev st = (None, st')
           \<and> tally h (Suc i) (pending st') st' \<and> signal n st'"
proof -
  have sz: "successes st + length (pending st) = i" using t by (rule tally_size)
  then have lt': "successes st < n" using lt by simp
  obtain a f where m: "schemaMethodPairs h k = Some (Function a f)"
    using hs by (auto simp add: handler_settles_def split: option.splits callable.splits)
  let ?st1 = "emit (Invoked i k ev) st"
  have t1: "tally h i (pending ?st1) ?st1"
    using t by (simp add: tally_def trace_emit successes_emit pending_emit completions_append)
  have s1: "signal n ?st1"
    using s lt' by (simp add: signal_def trace_emit successes_emit callbacks_append)
  have lt1: "successes ?st1 < n" using lt' by (simp add: successes_emit)
  show ?thesis
  proof (cases "f i ev")
    case (CompletesNow err)
    then have nf: "\<not> fatal h err" using hs m by (simp add: handler_settles_def)
    from complete_tally [OF nf t1 s1 lt1] show ?thesis
      using m CompletesNow by (auto simp add: invoke_def Let_def)
  next
    case (CompletesLater err)
    then have nf: "\<not> fatal h err" using hs m by (simp add: handler_settles_def)
    have "tally h (Suc i) (pending ?st1 @ [(i, err)]) (?st1\<lparr>pending := pending ?st1 @ [(i, err)]\<rparr>)"
      using t1 nf by (auto simp add: tally_def)
    moreover have "signal n (?st1\<lparr>pending := pending ?st1 @ [(i, err)]\<rparr>)"
      using s1 by (simp add: signal_def)
    ultimately show ?thesis
      using m CompletesLater by (simp add: invoke_def Let_def)
  next
    case NeverCompletes
    then show ?thesis using hs m by (simp add: handler_settles_def)
  next
    case (Raises ex)
    then show ?thesis using hs m by (simp add: handler_settles_def)
  next
    case (CompletesThenRaises err ex)
    then show ?thesis using hs m by (simp add: handler_settles_def)
  qed
qed

lemma record_body_tally:
  assumes se: "settles env h i record" and t: "tally h i (pending st) st" and s: "signal n st"
      and lt: "i < n"
  shows "\<exists>st'. record_body env h n i record st = (None, st')
           \<and> tally h (Suc i) (pending st') st' \<and> signal n st'"
proof -
  have sz: "successes st + length (pending st) = i" using t by (rule tally_size)
  then have lt': "successes st < n" using lt by simp
  show ?thesis
  proof (cases "undecodable env record")
    case True
    obtain rest where m: "decode_failure_msg env record = bad_msg rest"
      using undecodable_msg [OF True] by blast
    have nf: "\<not> fatal h (decode_failure_msg env record)" by (simp add: m bad_msg_not_fatal)
    from complete_tally [OF nf t s lt'] show ?thesis
      by (auto simp add: undecodable_body [OF True])
  next
    case False
    then obtain ev where c: "candidate env h record = Some ev"
      using se by (auto simp add: settles_def split: option.splits)
    have b: "record_body env h n i record st = dispatch env h n i ev st"
      using c by (rule candidate_body)
    show ?thesis
    proof (cases "processEvent env h ev")
      case (Complete err)
      then have nf: "\<not> fatal h err" by (rule processEvent_Complete_not_fatal)
      from complete_tally [OF nf t s lt'] show ?thesis
        using b Complete by (auto simp add: dispatch_def)
    next
      case (Invoke k ev')
      then have hs: "handler_settles h i k ev'"
        using se False c by (simp add: settles_def)
      from invoke_tally [OF hs t s lt] show ?thesis
        using b Invoke by (simp add: dispatch_def)
    next
      case (Raise e)
      then show ?thesis using se False c by (simp add: settles_def)
    qed
  qed
qed

lemma records_loop_tally:
  assumes "list_all (\<lambda>(j, r). settles env h j r) (enumerate i recs)"
      and "tally h i (pending st) st" and "signal n st"
      and "i + length recs = n"
  shows "\<exists>st'. records_loop env h n i recs st = (None, st')
           \<and> tally h n (pending st') st' \<and> signal n st'"
  using assms
proof (induction recs arbitrary: i st)
  case Nil
  then show ?case by simp
next
  case (Cons r rest)
  have lt: "i < n" using Cons.prems(4) by simp
  have se: "settles env h i r" using Cons.prems(1) by simp
  from record_body_tally [OF se Cons.prems(2) Cons.prems(3) lt]
  obtain st1 where b: "record_body env h n i r st = (None, st1)"
      and t1: "tally h (Suc i) (pending st1) st1" and s1: "signal n st1"
    by blast
  have rest: "list_all (\<lambda>(j, r). settles env h j r) (enumerate (Suc i) rest)"
    using Cons.prems(1) by simp
  have n: "Suc i + length rest = n" using Cons.prems(4) by simp
  from Cons.IH [OF rest t1 s1 n] show ?case using b by simp
qed

lemma deliver_tally:
  assumes "tally h n arrivals st" and "signal n st"
  shows "tally h n [] (deliver h n arrivals st) \<and> signal n (deliver h n arrivals st)"
  using assms
proof (induction arrivals arbitrary: st)
  case Nil
  then show ?case by simp
next
  case (Cons a rest)
  obtain j err where a: "a = (j, err)" by (cases a) auto
  from complete_tally_arrival [where h = h and n = n and j = j and err = err and out = rest
      and st = st and p = "remove1 (j, err) (pending st)"]
    Cons.prems a
  obtain st1 where c: "complete h n j err (st\<lparr>pending := remove1 (j, err) (pending st)\<rparr>)
                         = (None, st1)"
      and t1: "tally h n rest st1" and s1: "signal n st1"
    by blast
  from Cons.IH [OF t1 s1] show ?case using a c by simp
qed

text \<open>
  Claim C2, as the code has it. Concurrent driver: for a batch of \<open>N \<ge> 1\<close> records in
  which every record settles at its position (it yields exactly one completion,
  from the driver, from the dispatcher or from its handler, the completion is not
  fatal, and nothing is thrown while the record is drained: a handler that is
  dispatched calls its completion exactly once, before it returns or later, and
  returns without throwing), and with a callback that returns normally, once every
  completion put off has arrived, in whatever order, the callback has been called
  exactly once, with no argument, as the last thing of the run, after exactly one
  completion for each of the \<open>N\<close> records.
\<close>

theorem all_completions_then_callback:
  assumes "truthy kinesisEvent"
      and "get_prop kinesisEvent ''Records'' = Return (Arr records)"
      and "records \<noteq> []"
      and "list_all (\<lambda>(i, r). settles env h i r) (enumerate 0 records)"
      and "mset arrivals = mset (pending (processKinesisEvent env h kinesisEvent))"
  shows "\<exists>tr. trace (run_concurrent env h kinesisEvent arrivals) = tr @ [Callback Undefined]
           \<and> callbacks tr = []
           \<and> mset (map fst (completions tr)) = mset [0..<length records]
           \<and> (\<forall>(j, e) \<in> set (completions tr). \<not> fatal h e)"
proof -
  let ?n = "length records"
  let ?st0 = "\<lparr>trace = [], successes = 0, pending = []\<rparr> :: cstate"
  have t0: "tally h 0 (pending ?st0) ?st0" by (simp add: tally_def)
  have s0: "signal ?n ?st0" using assms(3) by (simp add: signal_def)
  from records_loop_tally [OF assms(4) t0 s0]
  obtain st1 where l: "records_loop env h ?n 0 records ?st0 = (None, st1)"
      and t1: "tally h ?n (pending st1) st1" and s1: "signal ?n st1"
    by auto
  have p: "processKinesisEvent env h kinesisEvent = st1"
    using assms(1) assms(2) l by (simp add: processKinesisEvent_def Let_def)
  have bs: "batch_size kinesisEvent = ?n"
    using assms(2) by (simp add: batch_size_def)
  have ms: "mset arrivals = mset (pending st1)" using assms(5) p by simp
  have ta: "tally h ?n arrivals st1"
  proof -
    have "mset (map fst arrivals) = mset (map fst (pending st1))"
      using ms by (metis mset_map)
    moreover have "set arrivals = set (pending st1)"
      using ms by (rule mset_eq_setD)
    ultimately show ?thesis using t1 by (simp add: tally_def)
  qed
  let ?fin = "deliver h ?n arrivals st1"
  have tf: "tally h ?n [] ?fin" and sf: "signal ?n ?fin"
    using deliver_tally [OF ta s1] by simp_all
  have "successes ?fin + length ([] :: (nat \<times> jsval) list) = ?n" using tf by (rule tally_size)
  then have "successes ?fin = ?n" by simp
  then obtain tr where tr: "trace ?fin = tr @ [Callback Undefined]" "callbacks tr = []"
    using sf by (auto simp add: signal_def)
  have c: "completions tr = completions (trace ?fin)"
    using tr(1) by (simp add: completions_append)
  have "mset (map fst (completions tr)) = mset [0..<?n]"
    using tf c by (simp add: tally_def)
  moreover have "\<forall>(j, e) \<in> set (completions tr). \<not> fatal h e"
    using tf c by (simp add: tally_def)
  ultimately show ?thesis
    using tr p bs by (auto simp add: run_concurrent_def)
qed

theorem all_completions_then_callback_witness:
  "truthy (batch [rec_with ''order'', rec_with ''junk'', rec_with ''order''])
   \<and> list_all (\<lambda>(i, r). settles demo_env (demo_handler ok_later) i r)
        (enumerate 0 [rec_with ''order'', rec_with ''junk'', rec_with ''order''])
   \<and> mset [(2, Undefined), (0, Undefined)]
       = mset (pending (processKinesisEvent demo_env (demo_handler ok_later)
           (batch [rec_with ''order'', rec_with ''junk'', rec_with ''order''])))
   \<and> (\<exists>tr. trace (run_concurrent demo_env (demo_handler ok_later)
               (batch [rec_with ''order'', rec_with ''junk'', rec_with ''order''])
               [(2, Undefined), (0, Undefined)]) = tr @ [Callback Undefined]
           \<and> callbacks tr = []
           \<and> mset (map fst (completions tr))
               = mset [0..<length [rec_with ''order'', rec_with ''junk'', rec_with ''order'']])
   \<and> map fst (completions (trace (run_concurrent demo_env (demo_handler ok_later)
        (batch [rec_with ''order'', rec_with ''junk'', rec_with ''order''])
        [(2, Undefined), (0, Undefined)]))) = [1, 2, 0]
   \<and> callbacks (trace (run_concurrent demo_env (demo_handler ok_later)
        (batch [rec_with ''order'', rec_with ''junk'', rec_with ''order''])
        [(2, Undefined), (0, Undefined)])) = [Undefined]"
proof -
  let ?b = "batch [rec_with ''order'', rec_with ''junk'', rec_with ''order'']"
  have t: "truthy ?b" by (simp add: batch_def)
  have g: "get_prop ?b ''Records''
             = Return (Arr [rec_with ''order'', rec_with ''junk'', rec_with ''order''])"
    by (simp add: batch_def)
  have ne: "[rec_with ''order'', rec_with ''junk'', rec_with ''order''] \<noteq> []" by simp
  have s: "list_all (\<lambda>(i, r). settles demo_env (demo_handler ok_later) i r)
             (enumerate 0 [rec_with ''order'', rec_with ''junk'', rec_with ''order''])"
    by (simp add: settles_def undecodable_def candidate_def handler_settles_def fatal_def
          demo_defs)
  have p: "pending (processKinesisEvent demo_env (demo_handler ok_later) ?b)
             = [(0, Undefined), (2, Undefined)]"
    by (simp add: demo_defs)
  have m: "mset [(2, Undefined), (0, Undefined)]
             = mset (pending (processKinesisEvent demo_env (demo_handler ok_later) ?b))"
    by (simp add: p)
  have r: "map fst (completions (trace (run_concurrent demo_env (demo_handler ok_later) ?b
             [(2, Undefined), (0, Undefined)]))) = [1, 2, 0]"
    by (simp add: demo_defs)
  have c: "callbacks (trace (run_concurrent demo_env (demo_handler ok_later) ?b
             [(2, Undefined), (0, Undefined)])) = [Undefined]"
    by (simp add: demo_defs)
  show ?thesis
    using all_completions_then_callback [OF t g ne s m] t s m r c
    by blast
qed

text \<open>
  Claim C2, as stated, fails. For the batch without records, which passes the shape
  check, the loop has nothing to do, no completion ever arrives and the callback
  is never called. For a batch of one record whose transformer throws, no
  completion is fatal and no handler is dispatched, and the callback is called
  with the exception as its argument.
\<close>

theorem batches_without_success_callback:
  "\<not> malformed (batch [])
   \<and> pending (processKinesisEvent demo_env (demo_handler ok_later) (batch [])) = []
   \<and> trace (run_concurrent demo_env (demo_handler ok_later) (batch []) []) = []
   \<and> callbacks (trace (run_concurrent demo_env (demo_handler ok_later) (batch []) [])) = []
   \<and> pending (processKinesisEvent demo_env demo_handler_throwing (batch [rec_with ''order''])) = []
   \<and> trace (run_concurrent demo_env demo_handler_throwing (batch [rec_with ''order'']) [])
       = [Callback (Error ''Error'' ''boom'')]"
  by (simp add: demo_defs malformed_def demo_handler_throwing_def throwing_transformer_def)

section \<open>The completion closure of the concurrent driver\<close>


























end
